theory Spec2Isabelle
  imports Complex_Main "HOL-Library.Multiset"
begin

section \<open>Numbers, errors and shared helpers\<close>

text \<open>
  The program computes with JavaScript numbers. They are modelled as \<^typ>\<open>real\<close>: every
  comparison, sum and product below is the exact one. Rounding of IEEE doubles, \<open>NaN\<close>
  and the infinities are outside this model; \<open>NaN\<close> is represented only where the code
  tests for it (\<open>parseFloat(x) || 0\<close>), as \<^const>\<open>None\<close>.

  A thrown exception or a rejected promise is a value \<open>Inl e\<close> of a sum type; a normal
  return is \<open>Inr v\<close>.
\<close>

datatype error = Error string

section \<open>Transcript segmenter: \<open>CaptionScraper.groupCaptionsIntoSegments\<close>\<close>

record Caption =
  start :: real
  duration :: real
  "text" :: string

text \<open>
  The \<open>for (const caption of captions)\<close> loop of \<open>groupCaptionsIntoSegments\<close>. The state is
  the array \<open>segments\<close> and the variable \<open>currentSegment\<close>; the last argument is the part of
  \<open>captions\<close> not yet visited.
\<close>

fun group_loop :: "real \<Rightarrow> Caption list \<Rightarrow> Caption \<Rightarrow> Caption list \<Rightarrow> Caption list \<times> Caption" where
  "group_loop segmentDuration segments currentSegment [] = (segments, currentSegment)"
| "group_loop segmentDuration segments currentSegment (caption # rest) =
     (if duration currentSegment > 0 \<and>
         duration currentSegment + duration caption > segmentDuration
      then group_loop segmentDuration (segments @ [currentSegment])
             \<lparr>Caption.start = Caption.start caption, duration = duration caption, text = text caption\<rparr>
             rest
      else group_loop segmentDuration segments
             (currentSegment\<lparr>duration := duration currentSegment + duration caption,
                             text := text currentSegment @ '' '' @ text caption\<rparr>)
             rest)"

definition groupCaptionsIntoSegments :: "Caption list \<Rightarrow> real \<Rightarrow> Caption list" where
  "groupCaptionsIntoSegments captions segmentDuration =
     (case captions of
        [] \<Rightarrow> []
      | c0 # _ \<Rightarrow>
          (case group_loop segmentDuration []
                  \<lparr>Caption.start = Caption.start c0, duration = 0, text = ''''\<rparr> captions of
             (segments, currentSegment) \<Rightarrow>
               if duration currentSegment > 0 then segments @ [currentSegment] else segments))"

text \<open>
  The invariant of the loop for the window bound. A segment is \<open>fits\<close> when it is within
  the window or carries exactly the duration of one caption that is itself longer than the
  window.
\<close>

definition fits :: "real \<Rightarrow> Caption list \<Rightarrow> Caption \<Rightarrow> bool" where
  "fits w captions s \<longleftrightarrow>
     duration s \<le> w \<or> list_ex (\<lambda>c. w < duration c \<and> duration s = duration c) captions"

section \<open>Sorting as \<open>Array.prototype.sort\<close> does\<close>

text \<open>
  \<open>xs.sort(cmp)\<close> is a stable sort: \<open>a\<close> is placed before \<open>b\<close> when \<open>cmp(a, b) < 0\<close>, and
  elements that compare equal keep their input order. It is modelled by a stable insertion
  sort driven by the comparator, which for a comparator that is a difference of keys
  returns the one list every stable sort returns.
\<close>

fun insort_cmp :: "('a \<Rightarrow> 'a \<Rightarrow> real) \<Rightarrow> 'a \<Rightarrow> 'a list \<Rightarrow> 'a list" where
  "insort_cmp cmp x [] = [x]"
| "insort_cmp cmp x (y # ys) =
     (if cmp x y \<le> 0 then x # y # ys else y # insort_cmp cmp x ys)"

definition js_sort :: "('a \<Rightarrow> 'a \<Rightarrow> real) \<Rightarrow> 'a list \<Rightarrow> 'a list" where
  "js_sort cmp xs = foldr (insort_cmp cmp) xs []"

section \<open>Acoustic segment detector: \<open>ViralContentDetector\<close>\<close>

datatype SegmentType = speech | music | silence | noise

record Segment =
  start :: real
  "end" :: real
  score :: real
  type :: SegmentType

record DetectionOptions =
  minSegmentDuration :: real
  maxSegmentDuration :: real
  energyThreshold :: real
  speechRateThreshold :: real

text \<open>
  \<open>x || d\<close> on an optional number: the default is taken when the field is absent and
  when it is \<open>0\<close>.
\<close>

definition or_default :: "real option \<Rightarrow> real \<Rightarrow> real" where
  "or_default x d = (case x of None \<Rightarrow> d | Some v \<Rightarrow> if v = 0 then d else v)"

text \<open>The constructor, from a \<open>Partial<DetectionOptions>\<close> given field by field.\<close>

definition ViralContentDetector ::
  "real option \<Rightarrow> real option \<Rightarrow> real option \<Rightarrow> real option \<Rightarrow> DetectionOptions" where
  "ViralContentDetector minD maxD energy speechRate =
     \<lparr>minSegmentDuration = or_default minD 5,
      maxSegmentDuration = or_default maxD 60,
      energyThreshold = or_default energy 0.6,
      speechRateThreshold = or_default speechRate 0.7\<rparr>"

text \<open>
  The file system and the media tools the detector calls. \<open>ffmpeg_extract\<close> is the
  promise of \<open>extractAudio\<close> (the path of the extracted audio, or the rejection),
  \<open>ffprobe_duration\<close> the callback of \<open>ffmpeg.ffprobe\<close> with \<open>metadata.format.duration\<close>
  (absent: \<open>None\<close>), \<open>energy_samples\<close> the array \<open>analyzeEnergyLevels\<close> resolves to (the
  code fills it from \<open>Math.random\<close>, so it is any sequence), \<open>unlinkSync\<close> the removal of
  the temporary file.
\<close>

record DetectorEnv =
  existsSync :: "string \<Rightarrow> bool"
  ffmpeg_extract :: "string \<Rightarrow> error + string"
  ffprobe_duration :: "string \<Rightarrow> error + real option"
  energy_samples :: "string \<Rightarrow> real list"
  unlinkSync :: "string \<Rightarrow> error + unit"

definition getAudioDuration :: "DetectorEnv \<Rightarrow> string \<Rightarrow> error + real" where
  "getAudioDuration env audioPath =
     (case ffprobe_duration env audioPath of
        Inl err \<Rightarrow> Inl err
      | Inr d \<Rightarrow> Inr (or_default d 0))"

text \<open>
  The loop of \<open>analyzeAudio\<close> over the sample index \<open>i\<close>. \<open>n\<close> is \<open>energyLevels.length\<close>,
  the list argument holds the samples from index \<open>i\<close> on, and \<open>currentSegment\<close> is
  \<open>None\<close> for \<open>null\<close> and otherwise the \<open>start\<close> and \<open>type\<close> of the open candidate.
\<close>

fun analyze_loop ::
  "DetectionOptions \<Rightarrow> real \<Rightarrow> nat \<Rightarrow> nat \<Rightarrow> real list \<Rightarrow> Segment list
     \<Rightarrow> (real \<times> SegmentType) option \<Rightarrow> Segment list \<times> (real \<times> SegmentType) option" where
  "analyze_loop opts audioDuration n i [] segments currentSegment = (segments, currentSegment)"
| "analyze_loop opts audioDuration n i (energy # rest) segments currentSegment =
     (let timePoint = (real i / real n) * audioDuration in
      if energy > energyThreshold opts then
        (case currentSegment of
           None \<Rightarrow> analyze_loop opts audioDuration n (i + 1) rest segments (Some (timePoint, speech))
         | Some _ \<Rightarrow> analyze_loop opts audioDuration n (i + 1) rest segments currentSegment)
      else
        (case currentSegment of
           Some (start0, type0) \<Rightarrow>
             (let dur = timePoint - start0 in
              analyze_loop opts audioDuration n (i + 1) rest
                (if dur \<ge> minSegmentDuration opts \<and> dur \<le> maxSegmentDuration opts
                 then segments @ [\<lparr>Segment.start = start0, end = timePoint, score = 0, type = type0\<rparr>]
                 else segments)
                None)
         | None \<Rightarrow> analyze_loop opts audioDuration n (i + 1) rest segments None))"

definition analyzeAudio :: "DetectionOptions \<Rightarrow> DetectorEnv \<Rightarrow> string \<Rightarrow> error + Segment list" where
  "analyzeAudio opts env audioPath =
     (case getAudioDuration env audioPath of
        Inl err \<Rightarrow> Inl err
      | Inr audioDuration \<Rightarrow>
          (let energyLevels = energy_samples env audioPath in
           case analyze_loop opts audioDuration (length energyLevels) 0 energyLevels [] None of
             (segments, currentSegment) \<Rightarrow>
               (case currentSegment of
                  None \<Rightarrow> Inr segments
                | Some (start0, type0) \<Rightarrow>
                    (let dur = audioDuration - start0 in
                     if dur \<ge> minSegmentDuration opts \<and> dur \<le> maxSegmentDuration opts
                     then Inr (segments @
                            [\<lparr>Segment.start = start0, end = audioDuration, score = 0, type = type0\<rparr>])
                     else Inr segments))))"

text \<open>
  \<open>calculateDurationScore\<close>. When \<open>maxDistance\<close> is \<open>0\<close> the JavaScript quotient is
  \<open>NaN\<close> or an infinity, while the quotient of \<^typ>\<open>real\<close> is \<open>0\<close>; no statement below
  depends on the value of a score.
\<close>

definition calculateDurationScore :: "DetectionOptions \<Rightarrow> real \<Rightarrow> real" where
  "calculateDurationScore opts dur =
     (let optimalDuration = 15;
          distanceFromOptimal = \<bar>dur - optimalDuration\<bar>;
          maxDistance = max (optimalDuration - minSegmentDuration opts)
                            (maxSegmentDuration opts - optimalDuration)
      in 1 - (distanceFromOptimal / maxDistance))"

definition scoreSegment :: "DetectionOptions \<Rightarrow> Segment \<Rightarrow> Segment" where
  "scoreSegment opts segment =
     (let dur = end segment - Segment.start segment;
          durationScore = calculateDurationScore opts dur;
          typeScore = (if type segment = speech then 0.8 else 0.4);
          combinedScore = (durationScore + typeScore) / 2
      in segment\<lparr>score := combinedScore\<rparr>)"

definition scoreSegments :: "DetectionOptions \<Rightarrow> Segment list \<Rightarrow> Segment list" where
  "scoreSegments opts segments =
     js_sort (\<lambda>a b. Segment.score b - Segment.score a) (map (scoreSegment opts) segments)"

text \<open>The body of the \<open>try\<close> block of \<open>detectViralSegments\<close>.\<close>

definition detect_try :: "DetectionOptions \<Rightarrow> DetectorEnv \<Rightarrow> string \<Rightarrow> error + Segment list" where
  "detect_try opts env videoPath =
     (if \<not> existsSync env videoPath
      then Inl (Error (''Video file not found: '' @ videoPath))
      else
        (case ffmpeg_extract env videoPath of
           Inl err \<Rightarrow> Inl err
         | Inr audioPath \<Rightarrow>
             (case analyzeAudio opts env audioPath of
                Inl err \<Rightarrow> Inl err
              | Inr segments \<Rightarrow>
                  (let scoredSegments = scoreSegments opts segments in
                   if existsSync env audioPath
                   then (case unlinkSync env audioPath of
                           Inl err \<Rightarrow> Inl err
                         | Inr _ \<Rightarrow> Inr scoredSegments)
                   else Inr scoredSegments))))"

text \<open>
  \<open>detectViralSegments\<close>: the \<open>catch\<close> clause logs the error and returns the empty array,
  so the promise the caller awaits is resolved on every path.
\<close>

definition detectViralSegments :: "DetectionOptions \<Rightarrow> DetectorEnv \<Rightarrow> string \<Rightarrow> error + Segment list" where
  "detectViralSegments opts env videoPath =
     (case detect_try opts env videoPath of
        Inl err \<Rightarrow> Inr []
      | Inr scoredSegments \<Rightarrow> Inr scoredSegments)"

text \<open>
  The predicate of the duration filter, for stating the loop invariant of the detector.
\<close>

definition in_range :: "DetectionOptions \<Rightarrow> Segment \<Rightarrow> bool" where
  "in_range opts s \<longleftrightarrow>
     minSegmentDuration opts \<le> end s - Segment.start s \<and>
     end s - Segment.start s \<le> maxSegmentDuration opts"

text \<open>Sample environments at which the statements about the detector are evaluated.\<close>

definition env_flicker :: DetectorEnv where
  "env_flicker =
     \<lparr>existsSync = (\<lambda>p. True),
      ffmpeg_extract = (\<lambda>p. Inr (p @ ''_audio.wav'')),
      ffprobe_duration = (\<lambda>p. Inr (Some 40)),
      energy_samples = (\<lambda>p. [0.9, 0.9, 0.1, 0.1, 0.9, 0.1, 0.7, 0.7]),
      unlinkSync = (\<lambda>p. Inr ())\<rparr>"

definition env_unreadable :: DetectorEnv where
  "env_unreadable =
     \<lparr>existsSync = (\<lambda>p. True),
      ffmpeg_extract = (\<lambda>p. Inr (p @ ''_audio.wav'')),
      ffprobe_duration = (\<lambda>p. Inl (Error ''Invalid data found when processing input'')),
      energy_samples = (\<lambda>p. [0.9, 0.9, 0.1, 0.1]),
      unlinkSync = (\<lambda>p. Inr ())\<rparr>"

definition env_zero_duration :: DetectorEnv where
  "env_zero_duration =
     \<lparr>existsSync = (\<lambda>p. True),
      ffmpeg_extract = (\<lambda>p. Inr (p @ ''_audio.wav'')),
      ffprobe_duration = (\<lambda>p. Inr (Some 0)),
      energy_samples = (\<lambda>p. [0.9, 0.9, 0.1, 0.1]),
      unlinkSync = (\<lambda>p. Inr ())\<rparr>"

section \<open>Transcript relevance scorer: \<open>CaptionAnalyzer\<close>\<close>

text \<open>
  The values the scorer's response can hold are JSON values; a JavaScript \<open>undefined\<close>
  is \<^const>\<open>None\<close> of \<open>json option\<close>. An object is given by its own properties.
\<close>

datatype json =
  JNull | JBool bool | JNum real | JStr string | JArr "json list" | JObj "(string \<times> json) list"

record AnalysisResult =
  score :: real
  reasons :: "json list"
  emotions :: "json list"
  "keywords" :: "json list"
  summary :: json

text \<open>
  \<open>result.k\<close> for one of the keys the parser reads (\<open>score\<close>, \<open>reasons\<close>, \<open>emotions\<close>,
  \<open>keywords\<close>, \<open>summary\<close>): a property of an object, \<open>undefined\<close> on numbers, strings,
  booleans and arrays, which own none of these keys. On \<open>null\<close> the read throws; that
  case is decided before \<open>property\<close> is used.
\<close>

definition property :: "json \<Rightarrow> string \<Rightarrow> json option" where
  "property v k = (case v of JObj kvs \<Rightarrow> map_of kvs k | _ \<Rightarrow> None)"

text \<open>
  \<open>parseFloat(x)\<close> converts its argument to a string first, and that conversion can
  throw. An object made by \<open>JSON.parse\<close> inherits a callable \<open>toString\<close> unless it has an
  own key \<open>toString\<close>, whose value, coming from JSON, is never callable; the inherited
  \<open>valueOf\<close> returns the object itself, so with such a key the conversion ends in a
  \<open>TypeError\<close>. An array is converted by joining the strings of all its elements
  (\<open>null\<close> as an element is the empty text), so it throws when the conversion of one of
  its elements does.
\<close>

fun toString_throws :: "json \<Rightarrow> bool" where
  "toString_throws JNull = False"
| "toString_throws (JBool b) = False"
| "toString_throws (JNum n) = False"
| "toString_throws (JStr s) = False"
| "toString_throws (JArr xs) = list_ex toString_throws xs"
| "toString_throws (JObj kvs) = (map_of kvs ''toString'' \<noteq> None)"

text \<open>
  The number \<open>parseFloat\<close> reads from the string of a value whose conversion does not
  throw, with \<^const>\<open>None\<close> for \<open>NaN\<close>: \<open>null\<close>, booleans and objects give text that
  starts with no number; a number gives itself back; of the comma-joined text of an array
  \<open>parseFloat\<close> reads the numeric prefix, which lies within the text of the first
  element. What \<open>parseFloat\<close> reads from a string is the parameter \<open>pf\<close>.
\<close>

fun read_number :: "(string \<Rightarrow> real option) \<Rightarrow> json \<Rightarrow> real option" where
  "read_number pf JNull = None"
| "read_number pf (JBool b) = None"
| "read_number pf (JNum n) = Some n"
| "read_number pf (JStr s) = pf s"
| "read_number pf (JArr []) = None"
| "read_number pf (JArr (x # xs)) = read_number pf x"
| "read_number pf (JObj kvs) = None"

text \<open>\<open>parseFloat(x)\<close>; \<open>undefined\<close> converts to text that starts with no number.\<close>

definition parseFloat :: "(string \<Rightarrow> real option) \<Rightarrow> json option \<Rightarrow> error + real option" where
  "parseFloat pf x =
     (case x of
        None \<Rightarrow> Inr None
      | Some v \<Rightarrow>
          if toString_throws v
          then Inl (Error ''TypeError: Cannot convert object to primitive value'')
          else Inr (read_number pf v))"

text \<open>\<open>Array.isArray(x) ? x : []\<close>\<close>

definition array_or_empty :: "json option \<Rightarrow> json list" where
  "array_or_empty x = (case x of Some (JArr xs) \<Rightarrow> xs | _ \<Rightarrow> [])"

text \<open>\<open>x || ''\<close>: the falsy values are \<open>undefined\<close>, \<open>null\<close>, \<open>false\<close>, \<open>0\<close> and the empty string.\<close>

definition truthy :: "json option \<Rightarrow> bool" where
  "truthy x =
     (case x of
        None \<Rightarrow> False
      | Some JNull \<Rightarrow> False
      | Some (JBool b) \<Rightarrow> b
      | Some (JNum n) \<Rightarrow> n \<noteq> 0
      | Some (JStr s) \<Rightarrow> s \<noteq> []
      | Some _ \<Rightarrow> True)"

definition or_empty_string :: "json option \<Rightarrow> json" where
  "or_empty_string x = (case x of None \<Rightarrow> JStr [] | Some v \<Rightarrow> if truthy x then v else JStr [])"

text \<open>
  The object literal both branches of \<open>parseAnalysisResult\<close> return, built from the value
  \<open>result\<close>. Reading a property of \<open>null\<close> throws a \<open>TypeError\<close>, and so can
  \<open>parseFloat(result.score)\<close>, the first field to be evaluated.
\<close>

definition result_fields :: "(string \<Rightarrow> real option) \<Rightarrow> json \<Rightarrow> error + AnalysisResult" where
  "result_fields pf result =
     (case result of
        JNull \<Rightarrow> Inl (Error ''TypeError: Cannot read properties of null'')
      | _ \<Rightarrow>
          (case parseFloat pf (property result ''score'') of
             Inl err \<Rightarrow> Inl err
           | Inr number \<Rightarrow>
               Inr \<lparr>AnalysisResult.score = or_default number 0,
                    reasons = array_or_empty (property result ''reasons''),
                    emotions = array_or_empty (property result ''emotions''),
                    keywords = array_or_empty (property result ''keywords''),
                    summary = or_empty_string (property result ''summary'')\<rparr>))"

text \<open>
  The \<open>try\<close> block of \<open>parseAnalysisResult\<close>. \<open>typeof x === 'object'\<close> holds of \<open>null\<close>,
  arrays and objects. Otherwise the argument goes to \<open>JSON.parse\<close>, which converts it to
  a string: the text of a number or a boolean parses to that value, the text
  \<open>undefined\<close> is a \<open>SyntaxError\<close>, and what \<open>JSON.parse\<close> makes of a string is the
  parameter \<open>json_parse\<close> (\<^const>\<open>None\<close> for a \<open>SyntaxError\<close>).
\<close>

definition parse_try ::
  "(string \<Rightarrow> real option) \<Rightarrow> (string \<Rightarrow> json option) \<Rightarrow> json option \<Rightarrow> error + AnalysisResult" where
  "parse_try pf json_parse responseText =
     (case responseText of
        None \<Rightarrow> Inl (Error ''SyntaxError'')
      | Some JNull \<Rightarrow> result_fields pf JNull
      | Some (JArr xs) \<Rightarrow> result_fields pf (JArr xs)
      | Some (JObj kvs) \<Rightarrow> result_fields pf (JObj kvs)
      | Some (JStr s) \<Rightarrow>
          (case json_parse s of
             None \<Rightarrow> Inl (Error ''SyntaxError'')
           | Some result \<Rightarrow> result_fields pf result)
      | Some (JNum n) \<Rightarrow> result_fields pf (JNum n)
      | Some (JBool b) \<Rightarrow> result_fields pf (JBool b))"

definition parseAnalysisResult ::
  "(string \<Rightarrow> real option) \<Rightarrow> (string \<Rightarrow> json option) \<Rightarrow> json option \<Rightarrow> AnalysisResult" where
  "parseAnalysisResult pf json_parse responseText =
     (case parse_try pf json_parse responseText of
        Inr result \<Rightarrow> result
      | Inl err \<Rightarrow>
          \<lparr>AnalysisResult.score = 0,
           reasons = [JStr ''Error parsing analysis result''],
           emotions = [],
           keywords = [],
           summary = JStr ''Failed to parse analysis''\<rparr>)"

text \<open>
  What one call of the scoring service comes to inside the \<open>try\<close> block of
  \<open>analyzeViralPotential\<close>: \<open>Rejected\<close> when \<open>axios.post\<close> rejects or the read of
  \<open>response.data.choices[0].message.content\<close> throws, and otherwise the value found
  there.
\<close>

datatype call_outcome = Rejected error | Content "json option"

definition analyzeViralPotential ::
  "(string \<Rightarrow> real option) \<Rightarrow> (string \<Rightarrow> json option) \<Rightarrow> call_outcome \<Rightarrow> error + AnalysisResult" where
  "analyzeViralPotential pf json_parse outcome =
     (case (case outcome of
              Rejected err \<Rightarrow> Inl err
            | Content result \<Rightarrow> Inr (parseAnalysisResult pf json_parse result)) of
        Inr analysis \<Rightarrow> Inr analysis
      | Inl err \<Rightarrow>
          Inr \<lparr>AnalysisResult.score = 0,
               reasons = [JStr ''Error analyzing content''],
               emotions = [],
               keywords = [],
               summary = JStr ''Analysis failed''\<rparr>)"

record CaptionAnalysis = AnalysisResult +
  caption :: Caption

text \<open>\<open>Promise.all\<close>: the results in order, or the first rejection.\<close>

fun promise_all :: "(error + 'a) list \<Rightarrow> error + 'a list" where
  "promise_all [] = Inr []"
| "promise_all (Inl err # ps) = Inl err"
| "promise_all (Inr v # ps) = (case promise_all ps of Inl err \<Rightarrow> Inl err | Inr vs \<Rightarrow> Inr (v # vs))"

text \<open>
  The call made for one caption of a batch: \<open>scorer k t\<close> is the outcome of the request
  issued for the caption at index \<open>k\<close> with text \<open>t\<close>.
\<close>

definition analyze_caption ::
  "(string \<Rightarrow> real option) \<Rightarrow> (string \<Rightarrow> json option) \<Rightarrow> (nat \<Rightarrow> string \<Rightarrow> call_outcome)
     \<Rightarrow> nat \<Rightarrow> Caption \<Rightarrow> error + CaptionAnalysis" where
  "analyze_caption pf json_parse scorer k c =
     (case analyzeViralPotential pf json_parse (scorer k (text c)) of
        Inl err \<Rightarrow> Inl err
      | Inr analysis \<Rightarrow>
          Inr \<lparr>AnalysisResult.score = AnalysisResult.score analysis,
               reasons = reasons analysis,
               emotions = emotions analysis,
               keywords = keywords analysis,
               summary = summary analysis,
               caption = c\<rparr>)"

text \<open>
  The batch loop of \<open>analyzeMultipleSegments\<close>, \<open>batchSize = 3\<close>. The pause of one second
  between two batches changes no value and is not modelled.
\<close>

function batch_loop ::
  "(string \<Rightarrow> real option) \<Rightarrow> (string \<Rightarrow> json option) \<Rightarrow> (nat \<Rightarrow> string \<Rightarrow> call_outcome)
     \<Rightarrow> Caption list \<Rightarrow> nat \<Rightarrow> CaptionAnalysis list \<Rightarrow> error + CaptionAnalysis list" where
  "batch_loop pf json_parse scorer captions i results =
     (if i < length captions then
        (let batch = take 3 (drop i captions);
             batchPromises = map (\<lambda>(k, c). analyze_caption pf json_parse scorer k c)
                                 (zip [i ..< i + length batch] batch)
         in case promise_all batchPromises of
              Inl err \<Rightarrow> Inl err
            | Inr batchResults \<Rightarrow>
                batch_loop pf json_parse scorer captions (i + 3) (results @ batchResults))
      else Inr results)"
  by pat_completeness auto
termination
  by (relation "measure (\<lambda>(pf, json_parse, scorer, captions, i, results). length captions - i)") auto

declare batch_loop.simps [simp del]

definition analyzeMultipleSegments ::
  "(string \<Rightarrow> real option) \<Rightarrow> (string \<Rightarrow> json option) \<Rightarrow> (nat \<Rightarrow> string \<Rightarrow> call_outcome)
     \<Rightarrow> Caption list \<Rightarrow> error + CaptionAnalysis list" where
  "analyzeMultipleSegments pf json_parse scorer captions =
     (case batch_loop pf json_parse scorer captions 0 [] of
        Inl err \<Rightarrow> Inl err
      | Inr results \<Rightarrow>
          Inr (js_sort (\<lambda>a b. AnalysisResult.score b - AnalysisResult.score a) results))"

text \<open>
  A scoring call has failed when one of the two \<open>catch\<close> clauses runs: the request was
  rejected, or the \<open>try\<close> block of the parser threw.
\<close>

definition scoring_failed ::
  "(string \<Rightarrow> real option) \<Rightarrow> (string \<Rightarrow> json option) \<Rightarrow> call_outcome \<Rightarrow> bool" where
  "scoring_failed pf json_parse outcome =
     (case outcome of
        Rejected err \<Rightarrow> True
      | Content result \<Rightarrow> isl (parse_try pf json_parse result))"


text \<open>
  A sample scoring service: the request for the caption at index 1 is rejected, every
  other request is answered with an object.
\<close>

definition scorer_second_fails :: "nat \<Rightarrow> string \<Rightarrow> call_outcome" where
  "scorer_second_fails k t =
     (if k = 1 then Rejected (Error ''Network Error'')
      else Content (Some (JObj [(''score'', JNum 0.8), (''reasons'', JArr [JStr ''funny''])])))"


section \<open>Segment fusion engine: \<open>EnhancedViralDetector\<close>\<close>

text \<open>
  \<open>EnhancedSegment extends Segment\<close>; an optional field that is not set is
  \<^const>\<open>None\<close>. \<open>aiAnalysis\<close> holds the element of \<open>captionAnalysisResults\<close> it was
  taken from, which carries its \<open>caption\<close>.
\<close>

record EnhancedSegment = Segment +
  captionText :: "string option"
  aiAnalysis :: "CaptionAnalysis option"
  combinedScore :: real

text \<open>\<open>segmentsOverlap\<close>, on two objects \<open>{start, end}\<close> given as pairs.\<close>

definition segmentsOverlap :: "real \<times> real \<Rightarrow> real \<times> real \<Rightarrow> bool" where
  "segmentsOverlap segment1 segment2 \<longleftrightarrow>
     fst segment1 < snd segment2 \<and> fst segment2 < snd segment1"

text \<open>
  The objects \<open>{start, end, analysis}\<close> built from a result are triples
  \<open>(start, end, analysis)\<close>.
\<close>

definition captionSegment :: "CaptionAnalysis \<Rightarrow> real \<times> real \<times> CaptionAnalysis" where
  "captionSegment result =
     (Caption.start (caption result),
      Caption.start (caption result) + duration (caption result),
      result)"

definition findOverlappingCaptions ::
  "Segment \<Rightarrow> (real \<times> real \<times> CaptionAnalysis) list \<Rightarrow> (real \<times> real \<times> CaptionAnalysis) list" where
  "findOverlappingCaptions audioSegment captionSegments =
     filter (\<lambda>(start0, end0, analysis).
               segmentsOverlap (Segment.start audioSegment, end audioSegment) (start0, end0))
            captionSegments"

text \<open>\<open>xs.join(sep)\<close> on an array of strings.\<close>

fun join :: "string \<Rightarrow> string list \<Rightarrow> string" where
  "join sep [] = []"
| "join sep [x] = x"
| "join sep (x # y # ys) = x @ sep @ join sep (y # ys)"

text \<open>
  The body of the first loop of \<open>combineAudioAndCaptionAnalysis\<close> for one audio segment:
  the enhanced segment it pushes. The two \<open>reduce\<close> calls are left folds over the whole
  array, the second one started at its first element.
\<close>

definition enhance :: "CaptionAnalysis list \<Rightarrow> Segment \<Rightarrow> EnhancedSegment" where
  "enhance captionAnalysisResults audioSegment =
     (let overlappingCaptions =
            findOverlappingCaptions audioSegment (map captionSegment captionAnalysisResults)
      in case overlappingCaptions of
           first # _ \<Rightarrow>
             (let avgAiScore =
                    foldl (\<lambda>sum (start0, end0, analysis). sum + AnalysisResult.score analysis)
                          0 overlappingCaptions
                    / real (length overlappingCaptions);
                  combinedCaptionText =
                    join '' '' (map (\<lambda>(start0, end0, analysis). text (caption analysis))
                                    overlappingCaptions);
                  bestAnalysis =
                    snd (snd (foldl (\<lambda>best current.
                                       if AnalysisResult.score (snd (snd current))
                                            > AnalysisResult.score (snd (snd best))
                                       then current else best)
                                    first overlappingCaptions));
                  audioWeight = 0.4;
                  captionWeight = 0.6;
                  combined = Segment.score audioSegment * audioWeight + avgAiScore * captionWeight
              in \<lparr>Segment.start = Segment.start audioSegment,
                  end = end audioSegment,
                  score = Segment.score audioSegment,
                  type = type audioSegment,
                  captionText = Some combinedCaptionText,
                  aiAnalysis = Some bestAnalysis,
                  combinedScore = combined\<rparr>)
         | [] \<Rightarrow>
             \<lparr>Segment.start = Segment.start audioSegment,
              end = end audioSegment,
              score = Segment.score audioSegment,
              type = type audioSegment,
              captionText = None,
              aiAnalysis = None,
              combinedScore = Segment.score audioSegment * 0.7\<rparr>)"

text \<open>The first loop: \<open>for (const audioSegment of audioSegments)\<close>.\<close>

fun audio_loop ::
  "CaptionAnalysis list \<Rightarrow> EnhancedSegment list \<Rightarrow> Segment list \<Rightarrow> EnhancedSegment list" where
  "audio_loop captionAnalysisResults enhancedSegments [] = enhancedSegments"
| "audio_loop captionAnalysisResults enhancedSegments (audioSegment # rest) =
     audio_loop captionAnalysisResults
       (enhancedSegments @ [enhance captionAnalysisResults audioSegment]) rest"

text \<open>The segment the second loop pushes for a caption result.\<close>

definition caption_only :: "CaptionAnalysis \<Rightarrow> EnhancedSegment" where
  "caption_only captionResult =
     \<lparr>Segment.start = Caption.start (caption captionResult),
      end = Caption.start (caption captionResult) + duration (caption captionResult),
      score = 0.5,
      type = speech,
      captionText = Some (text (caption captionResult)),
      aiAnalysis = Some captionResult,
      combinedScore = AnalysisResult.score captionResult * 0.8\<rparr>"

text \<open>
  The second loop: \<open>for (const captionResult of captionAnalysisResults)\<close>. The test
  \<open>enhancedSegments.some(...)\<close> reads the array as it is at that iteration, the segments
  pushed earlier by this same loop included.
\<close>

fun caption_loop :: "EnhancedSegment list \<Rightarrow> CaptionAnalysis list \<Rightarrow> EnhancedSegment list" where
  "caption_loop enhancedSegments [] = enhancedSegments"
| "caption_loop enhancedSegments (captionResult # rest) =
     (if AnalysisResult.score captionResult < 0.7 then caption_loop enhancedSegments rest
      else
        (let hasOverlap =
               list_ex (\<lambda>segment.
                          segmentsOverlap (Segment.start segment, end segment)
                            (fst (captionSegment captionResult),
                             fst (snd (captionSegment captionResult))))
                       enhancedSegments
         in if \<not> hasOverlap
            then caption_loop (enhancedSegments @ [caption_only captionResult]) rest
            else caption_loop enhancedSegments rest))"

definition combineAudioAndCaptionAnalysis ::
  "Segment list \<Rightarrow> CaptionAnalysis list \<Rightarrow> EnhancedSegment list" where
  "combineAudioAndCaptionAnalysis audioSegments captionAnalysisResults =
     js_sort (\<lambda>a b. combinedScore b - combinedScore a)
       (caption_loop (audio_loop captionAnalysisResults [] audioSegments) captionAnalysisResults)"

section \<open>The fusion engine as the specification words it\<close>

text \<open>
  A second description of \<open>fuse\<close>, following section 4.4 of the specification step by
  step, to compare the code with: the half-open overlap predicate, the mean, the first
  result of maximal score, the orphan step over the segments produced so far, and a
  stable descending sort.
\<close>

definition overlap_spec :: "real \<Rightarrow> real \<Rightarrow> real \<Rightarrow> real \<Rightarrow> bool" where
  "overlap_spec s1 e1 s2 e2 \<longleftrightarrow> s1 < e2 \<and> s2 < e1"

definition overlapping_spec :: "Segment \<Rightarrow> CaptionAnalysis list \<Rightarrow> CaptionAnalysis list" where
  "overlapping_spec A relevance =
     filter (\<lambda>R. overlap_spec (Caption.start (caption R))
                               (Caption.start (caption R) + duration (caption R))
                               (Segment.start A) (end A))
            relevance"

definition mean_spec :: "real list \<Rightarrow> real" where
  "mean_spec xs = sum_list xs / real (length xs)"

definition best_spec :: "CaptionAnalysis list \<Rightarrow> CaptionAnalysis option" where
  "best_spec overlapping =
     find (\<lambda>R. list_all (\<lambda>R'. AnalysisResult.score R' \<le> AnalysisResult.score R) overlapping)
          overlapping"

definition fuse_acoustic_spec :: "CaptionAnalysis list \<Rightarrow> Segment \<Rightarrow> EnhancedSegment" where
  "fuse_acoustic_spec relevance A =
     (let overlapping = overlapping_spec A relevance in
      if overlapping \<noteq> []
      then \<lparr>Segment.start = Segment.start A, end = end A, score = Segment.score A, type = type A,
            captionText = Some (join '' '' (map (\<lambda>R. text (caption R)) overlapping)),
            aiAnalysis = best_spec overlapping,
            combinedScore = 0.4 * Segment.score A
                            + 0.6 * mean_spec (map AnalysisResult.score overlapping)\<rparr>
      else \<lparr>Segment.start = Segment.start A, end = end A, score = Segment.score A, type = type A,
            captionText = None,
            aiAnalysis = None,
            combinedScore = 0.7 * Segment.score A\<rparr>)"

definition orphan_spec :: "CaptionAnalysis \<Rightarrow> EnhancedSegment" where
  "orphan_spec R =
     \<lparr>Segment.start = Caption.start (caption R),
      end = Caption.start (caption R) + duration (caption R),
      score = 0.5,
      type = speech,
      captionText = Some (text (caption R)),
      aiAnalysis = Some R,
      combinedScore = 0.8 * AnalysisResult.score R\<rparr>"

definition orphan_step_spec :: "EnhancedSegment list \<Rightarrow> CaptionAnalysis \<Rightarrow> EnhancedSegment list" where
  "orphan_step_spec produced R =
     (if 0.7 \<le> AnalysisResult.score R
         \<and> list_all (\<lambda>F. \<not> overlap_spec (Caption.start (caption R))
                                         (Caption.start (caption R) + duration (caption R))
                                         (Segment.start F) (end F))
                     produced
      then produced @ [orphan_spec R]
      else produced)"

definition fuse_spec :: "Segment list \<Rightarrow> CaptionAnalysis list \<Rightarrow> EnhancedSegment list" where
  "fuse_spec acoustic relevance =
     sort_key (\<lambda>F. - combinedScore F)
       (foldl orphan_step_spec (map (fuse_acoustic_spec relevance) acoustic) relevance)"


text \<open>
  Auxiliary notions for the proofs about the fusion engine: the interval of a result, the
  step of the \<open>reduce\<close> that picks \<open>bestAnalysis\<close> read on results, and the test for a
  result of maximal score.
\<close>

definition interval :: "CaptionAnalysis \<Rightarrow> real \<times> real" where
  "interval R = (Caption.start (caption R), Caption.start (caption R) + duration (caption R))"

definition better :: "CaptionAnalysis \<Rightarrow> CaptionAnalysis \<Rightarrow> CaptionAnalysis" where
  "better best current =
     (if AnalysisResult.score current > AnalysisResult.score best then current else best)"

abbreviation is_max :: "CaptionAnalysis list \<Rightarrow> CaptionAnalysis \<Rightarrow> bool" where
  "is_max rs R \<equiv> list_all (\<lambda>R'. AnalysisResult.score R' \<le> AnalysisResult.score R) rs"

text \<open>A sample relevance result with the given score, start, duration and text.\<close>

definition sample_result :: "real \<Rightarrow> real \<Rightarrow> real \<Rightarrow> string \<Rightarrow> CaptionAnalysis" where
  "sample_result s t d txt0 =
     \<lparr>AnalysisResult.score = s, reasons = [], emotions = [], keywords = [], summary = JStr [],
      caption = \<lparr>Caption.start = t, duration = d, text = txt0\<rparr>\<rparr>"


section \<open>Properties of the transcript segmenter\<close>

lemma Caption_rebuild [simp]:
  "\<lparr>Caption.start = Caption.start c, duration = duration c, text = text c\<rparr> = (c :: Caption)"
  by simp

lemma group_loop_fits:
  assumes "group_loop w segs cur rest = (segs', cur')"
    and "list_all (\<lambda>c. 0 \<le> duration c) rest"
    and "set rest \<subseteq> set captions"
    and "list_all (fits w captions) segs"
    and "0 \<le> duration cur"
    and "duration cur = 0 \<or> fits w captions cur"
  shows "list_all (fits w captions) segs' \<and> (duration cur' = 0 \<or> fits w captions cur')"
  using assms
proof (induction rest arbitrary: segs cur)
  case Nil
  then show ?case by simp
next
  case (Cons c rest)
  have c_in: "c \<in> set captions" and c_nonneg: "0 \<le> duration c"
    using Cons.prems by simp_all
  have c_fits: "fits w captions c"
    using c_in by (cases "duration c \<le> w") (auto simp: fits_def list_ex_iff not_le intro: bexI [of _ c])
  show ?case
  proof (cases "duration cur > 0 \<and> duration cur + duration c > w")
    case True
    then have step: "group_loop w (segs @ [cur]) c rest = (segs', cur')"
      using Cons.prems(1) by simp
    have "fits w captions cur"
      using True Cons.prems(6) by auto
    then have "list_all (fits w captions) (segs @ [cur])"
      using Cons.prems(4) by simp
    then show ?thesis
      using Cons.IH [OF step] Cons.prems(2,3) c_nonneg c_fits by simp
  next
    case False
    let ?cur = "cur\<lparr>duration := duration cur + duration c, text := text cur @ '' '' @ text c\<rparr>"
    from False have step: "group_loop w segs ?cur rest = (segs', cur')"
      using Cons.prems(1) by auto
    have "duration cur = 0 \<or> duration cur + duration c \<le> w"
      using False Cons.prems(5) by auto
    then have "fits w captions ?cur"
    proof
      assume "duration cur = 0"
      then show ?thesis
        using c_fits by (simp add: fits_def)
    next
      assume "duration cur + duration c \<le> w"
      then show ?thesis
        by (simp add: fits_def)
    qed
    moreover have "0 \<le> duration ?cur"
      using Cons.prems(5) c_nonneg by simp
    ultimately show ?thesis
      using Cons.IH [OF step] Cons.prems(2,3,4) by simp
  qed
qed

lemma group_fits:
  assumes "list_all (\<lambda>c. 0 \<le> duration c) captions"
  shows "list_all (fits w captions) (groupCaptionsIntoSegments captions w)"
proof (cases captions)
  case Nil
  then show ?thesis by (simp add: groupCaptionsIntoSegments_def)
next
  case (Cons c0 cs)
  obtain segs' cur' where
    run: "group_loop w [] \<lparr>Caption.start = Caption.start c0, duration = 0, text = ''''\<rparr> captions
            = (segs', cur')"
    by (cases "group_loop w [] \<lparr>Caption.start = Caption.start c0, duration = 0, text = ''''\<rparr> captions")
  have "list_all (fits w captions) segs' \<and> (duration cur' = 0 \<or> fits w captions cur')"
    by (rule group_loop_fits [OF run assms]) simp_all
  then show ?thesis
    using run Cons by (auto simp: groupCaptionsIntoSegments_def)
qed

text \<open>
  With a window that is not positive and captions of positive duration, the overflow test
  fires at every caption after the first.
\<close>

lemma group_loop_nonpositive_window:
  assumes "w \<le> 0" and "0 < duration cur" and "list_all (\<lambda>c. 0 < duration c) rest"
  shows "group_loop w segs cur rest = (butlast (segs @ cur # rest), last (cur # rest))"
  using assms
proof (induction rest arbitrary: segs cur)
  case Nil
  then show ?case by simp
next
  case (Cons c rest)
  then have "duration cur > 0 \<and> duration cur + duration c > w"
    by simp
  then have "group_loop w segs cur (c # rest) = group_loop w (segs @ [cur]) c rest"
    by simp
  also have "\<dots> = (butlast ((segs @ [cur]) @ c # rest), last (c # rest))"
    using Cons.prems by (intro Cons.IH) simp_all
  finally show ?case by simp
qed

text \<open>
  Claim C4 (as stated in the specification: the first two captions merge). On the code the
  scenario gives three segments, not two: after \<open>a\<close> the accumulator holds 5 seconds, and
  \<open>5 + 5 > 8\<close> flushes it before \<open>b\<close>; likewise before \<open>c\<close>. The stated result is refuted.
\<close>

theorem C4_group_scenario_A_refuted:
  "groupCaptionsIntoSegments
     [\<lparr>Caption.start = 0, duration = 5, text = ''a''\<rparr>,
      \<lparr>Caption.start = 5, duration = 5, text = ''b''\<rparr>,
      \<lparr>Caption.start = 10, duration = 5, text = ''c''\<rparr>] 8
   \<noteq> [\<lparr>Caption.start = 0, duration = 10, text = '' a b''\<rparr>,
      \<lparr>Caption.start = 10, duration = 5, text = '' c''\<rparr>]"
  by (simp add: groupCaptionsIntoSegments_def)

text \<open>
  Claim C4 (amended): \<open>group\<close> applied to the three captions of scenario A with
  \<open>windowSeconds = 8\<close> returns exactly three segments, one per caption; only the first,
  which was merged into the empty accumulator, has a leading space in its text.
\<close>

theorem C4_group_scenario_A:
  "groupCaptionsIntoSegments
     [\<lparr>Caption.start = 0, duration = 5, text = ''a''\<rparr>,
      \<lparr>Caption.start = 5, duration = 5, text = ''b''\<rparr>,
      \<lparr>Caption.start = 10, duration = 5, text = ''c''\<rparr>] 8
   = [\<lparr>Caption.start = 0, duration = 5, text = '' a''\<rparr>,
      \<lparr>Caption.start = 5, duration = 5, text = ''b''\<rparr>,
      \<lparr>Caption.start = 10, duration = 5, text = ''c''\<rparr>]"
  by (simp add: groupCaptionsIntoSegments_def)

text \<open>
  Claim C5 (as stated: only the very first output segment may exceed the window). A
  caption longer than the window that arrives when the accumulator already has content
  opens a new segment with its own duration, at any position of the output: here the
  second segment lasts 20 seconds with a window of 8.
\<close>

theorem C5_group_window_bound_refuted:
  "groupCaptionsIntoSegments
     [\<lparr>Caption.start = 0, duration = 5, text = ''a''\<rparr>,
      \<lparr>Caption.start = 5, duration = 20, text = ''b''\<rparr>] 8
   = [\<lparr>Caption.start = 0, duration = 5, text = '' a''\<rparr>,
      \<lparr>Caption.start = 5, duration = 20, text = ''b''\<rparr>]
   \<and> \<not> duration \<lparr>Caption.start = 5, duration = 20, text = ''b''\<rparr> \<le> (8::real)"
  by (simp add: groupCaptionsIntoSegments_def)

text \<open>
  Claim C5 (amended): for every caption sequence whose durations are not negative and
  every \<open>windowSeconds\<close>, every segment returned by \<open>group\<close> has
  \<open>duration \<le> windowSeconds\<close>, except a segment whose duration is that of a single
  caption of the input which is itself longer than the window; such a segment can stand
  anywhere in the output.
\<close>

theorem C5_group_window_bound:
  assumes "\<forall>c \<in> set captions. 0 \<le> duration c"
    and "s \<in> set (groupCaptionsIntoSegments captions windowSeconds)"
  shows "duration s \<le> windowSeconds \<or>
         (\<exists>c \<in> set captions. windowSeconds < duration c \<and> duration s = duration c)"
proof -
  have "list_all (\<lambda>c. 0 \<le> duration c) captions"
    using assms(1) by (simp add: list_all_iff)
  then have "list_all (fits windowSeconds captions) (groupCaptionsIntoSegments captions windowSeconds)"
    by (rule group_fits)
  then have "fits windowSeconds captions s"
    using assms(2) by (simp add: list_all_iff)
  then show ?thesis
    by (simp add: fits_def list_ex_iff)
qed

theorem C5_group_window_bound_witness:
  "list_all (\<lambda>c. 0 \<le> duration c)
     [\<lparr>Caption.start = 0, duration = 5, text = ''a''\<rparr>,
      \<lparr>Caption.start = 5, duration = 20, text = ''b''\<rparr>,
      \<lparr>Caption.start = 25, duration = 2, text = ''c''\<rparr>]
   \<and> \<lparr>Caption.start = 25, duration = 2, text = ''c''\<rparr>
       \<in> set (groupCaptionsIntoSegments
                [\<lparr>Caption.start = 0, duration = 5, text = ''a''\<rparr>,
                 \<lparr>Caption.start = 5, duration = 20, text = ''b''\<rparr>,
                 \<lparr>Caption.start = 25, duration = 2, text = ''c''\<rparr>] 8)
   \<and> duration \<lparr>Caption.start = 25, duration = 2, text = ''c''\<rparr> \<le> (8::real)"
  using C5_group_window_bound
    [of "[\<lparr>Caption.start = 0, duration = 5, text = ''a''\<rparr>,
          \<lparr>Caption.start = 5, duration = 20, text = ''b''\<rparr>,
          \<lparr>Caption.start = 25, duration = 2, text = ''c''\<rparr>]"
        "\<lparr>Caption.start = 25, duration = 2, text = ''c''\<rparr>" 8]
  by (simp add: groupCaptionsIntoSegments_def)

text \<open>
  Claim C7 (as stated: a call with \<open>windowSeconds \<le> 0\<close> fails). The function has no
  check of its second argument and no \<open>throw\<close>; with a window of \<open>-1\<close> it returns a
  segment list like any other call.
\<close>

theorem C7_group_nonpositive_window_returns:
  "groupCaptionsIntoSegments
     [\<lparr>Caption.start = 0, duration = 5, text = ''a''\<rparr>,
      \<lparr>Caption.start = 5, duration = 5, text = ''b''\<rparr>] (- 1)
   = [\<lparr>Caption.start = 0, duration = 5, text = '' a''\<rparr>,
      \<lparr>Caption.start = 5, duration = 5, text = ''b''\<rparr>]"
  by (simp add: groupCaptionsIntoSegments_def)

text \<open>
  Claim C7 (amended): calling \<open>group\<close> with \<open>windowSeconds \<le> 0\<close> is not an error. The
  call returns a segment list: for captions of positive duration, one segment per caption,
  each caption unchanged except that the text of the first gets a leading space.
\<close>

theorem C7_group_nonpositive_window:
  assumes "windowSeconds \<le> 0" and "\<forall>c \<in> set (c0 # cs). 0 < duration c"
  shows "groupCaptionsIntoSegments (c0 # cs) windowSeconds
         = c0\<lparr>text := '' '' @ text c0\<rparr> # cs"
proof -
  let ?init = "\<lparr>Caption.start = Caption.start c0, duration = 0, text = ''''\<rparr>"
  let ?first = "c0\<lparr>text := '' '' @ text c0\<rparr>"
  have first: "\<lparr>Caption.start = Caption.start c0, duration = duration c0, text = t\<rparr>
               = c0\<lparr>text := t\<rparr>" for t
    by simp
  have "group_loop windowSeconds [] ?init (c0 # cs) = group_loop windowSeconds [] ?first cs"
    by (simp add: first del: Caption_rebuild)
  also have "\<dots> = (butlast ([] @ ?first # cs), last (?first # cs))"
    using assms by (intro group_loop_nonpositive_window) (simp_all add: list_all_iff)
  finally have run: "group_loop windowSeconds [] ?init (c0 # cs)
                     = (butlast (?first # cs), last (?first # cs))"
    by simp
  have pos: "0 < duration (last (?first # cs))"
  proof (cases cs)
    case Nil
    then show ?thesis using assms(2) by simp
  next
    case (Cons a as)
    then have "last (?first # cs) \<in> set cs"
      by (metis last_ConsR last_in_set list.distinct(1))
    then show ?thesis using assms(2) by simp
  qed
  have "groupCaptionsIntoSegments (c0 # cs) windowSeconds
        = butlast (?first # cs) @ [last (?first # cs)]"
    unfolding groupCaptionsIntoSegments_def list.case run prod.case using pos by simp
  then show ?thesis
    by (simp only: append_butlast_last_id [OF list.distinct(2)])
qed

theorem C7_group_nonpositive_window_witness:
  "(0::real) \<le> 0
   \<and> list_all (\<lambda>c. 0 < duration c)
         [\<lparr>Caption.start = 0, duration = 5, text = ''a''\<rparr>,
          \<lparr>Caption.start = 5, duration = 7, text = ''b''\<rparr>]
   \<and> groupCaptionsIntoSegments
       [\<lparr>Caption.start = 0, duration = 5, text = ''a''\<rparr>,
        \<lparr>Caption.start = 5, duration = 7, text = ''b''\<rparr>] 0
     = [\<lparr>Caption.start = 0, duration = 5, text = '' a''\<rparr>,
        \<lparr>Caption.start = 5, duration = 7, text = ''b''\<rparr>]"
  using C7_group_nonpositive_window
    [of 0 "\<lparr>Caption.start = 0, duration = 5, text = ''a''\<rparr>"
        "[\<lparr>Caption.start = 5, duration = 7, text = ''b''\<rparr>]"]
  by simp

section \<open>Properties of the sort\<close>

lemma mset_insort_cmp: "mset (insort_cmp cmp x ys) = add_mset x (mset ys)"
  by (induction ys) simp_all

lemma mset_js_sort: "mset (js_sort cmp xs) = mset xs"
  unfolding js_sort_def by (induction xs) (simp_all add: mset_insort_cmp)

lemma set_js_sort: "set (js_sort cmp xs) = set xs"
  by (metis mset_js_sort set_mset_mset)

section \<open>Properties of the acoustic segment detector\<close>

lemma analyze_loop_in_range:
  assumes "analyze_loop opts T n i levels segs cur = (segs', cur')"
    and "list_all (in_range opts) segs"
  shows "list_all (in_range opts) segs'"
  using assms
proof (induction levels arbitrary: i segs cur)
  case Nil
  then show ?case by simp
next
  case (Cons e rest)
  show ?case
  proof (cases "e > energyThreshold opts")
    case True
    then show ?thesis
      using Cons.prems Cons.IH by (cases cur) (auto simp: Let_def)
  next
    case False
    show ?thesis
    proof (cases cur)
      case None
      then show ?thesis using False Cons.prems Cons.IH by (auto simp: Let_def)
    next
      case (Some p)
      obtain s0 t0 where p: "p = (s0, t0)" by (cases p)
      define tp where "tp = real i / real n * T"
      define seg where "seg = \<lparr>Segment.start = s0, end = tp, score = 0, type = t0\<rparr>"
      show ?thesis
      proof (cases "tp - s0 \<ge> minSegmentDuration opts \<and> tp - s0 \<le> maxSegmentDuration opts")
        case True
        then have step: "analyze_loop opts T n (i + 1) rest (segs @ [seg]) None = (segs', cur')"
          using Cons.prems(1) False Some p by (simp add: Let_def tp_def seg_def)
        have "in_range opts seg"
          using True by (simp add: in_range_def seg_def)
        then have "list_all (in_range opts) (segs @ [seg])"
          using Cons.prems(2) by simp
        then show ?thesis
          using Cons.IH [OF step] by simp
      next
        case outside: False
        then have step: "analyze_loop opts T n (i + 1) rest segs None = (segs', cur')"
          using Cons.prems(1) False Some p by (auto simp: Let_def tp_def)
        show ?thesis
          using Cons.IH [OF step Cons.prems(2)] .
      qed
    qed
  qed
qed

lemma analyzeAudio_in_range:
  assumes "analyzeAudio opts env audioPath = Inr segs"
  shows "list_all (in_range opts) segs"
proof -
  obtain T where T: "getAudioDuration env audioPath = Inr T"
    using assms by (auto simp: analyzeAudio_def split: sum.splits)
  let ?levels = "energy_samples env audioPath"
  obtain segs' cur' where
    run: "analyze_loop opts T (length ?levels) 0 ?levels [] None = (segs', cur')"
    by (cases "analyze_loop opts T (length ?levels) 0 ?levels [] None")
  have inv: "list_all (in_range opts) segs'"
    by (rule analyze_loop_in_range [OF run]) simp
  show ?thesis
    using assms T run inv
    by (auto simp: analyzeAudio_def Let_def in_range_def split: option.splits if_splits)
qed

lemma in_range_scoreSegment [simp]: "in_range opts (scoreSegment opts' s) = in_range opts s"
  by (simp add: in_range_def scoreSegment_def Let_def)

lemma scoreSegments_in_range:
  "list_all (in_range opts) segs \<Longrightarrow> list_all (in_range opts) (scoreSegments opts' segs)"
  by (simp add: scoreSegments_def list_all_iff set_js_sort)

lemma detect_try_in_range:
  assumes "detect_try opts env videoPath = Inr segs"
  shows "list_all (in_range opts) segs"
  using assms
  by (auto simp: detect_try_def Let_def split: if_splits sum.splits
           dest!: analyzeAudio_in_range intro: scoreSegments_in_range)

lemma detectViralSegments_in_range:
  assumes "detectViralSegments opts env videoPath = Inr segs"
  shows "list_all (in_range opts) segs"
  using assms detect_try_in_range [of opts env videoPath]
  by (auto simp: detectViralSegments_def split: sum.splits)

lemma scoreSegments_intervals:
  "mset (map (\<lambda>s. (Segment.start s, end s, type s)) (scoreSegments opts cands))
   = mset (map (\<lambda>s. (Segment.start s, end s, type s)) cands)"
proof -
  have "mset (map (\<lambda>s. (Segment.start s, end s, type s)) (scoreSegments opts cands))
        = image_mset (\<lambda>s. (Segment.start s, end s, type s)) (mset (map (scoreSegment opts) cands))"
    by (simp add: scoreSegments_def mset_js_sort)
  also have "\<dots> = mset (map (\<lambda>s. (Segment.start s, end s, type s)) cands)"
    by (simp add: scoreSegment_def Let_def image_mset.compositionality comp_def)
  finally show ?thesis .
qed

text \<open>
  Claim C6: for every energy-level sequence, total duration and option set, every
  segment returned by \<open>detect\<close> satisfies
  \<open>minSegmentDuration \<le> end - start \<le> maxSegmentDuration\<close>, the candidate closed at the
  end of the audio included; and the scoring and sorting step neither drops nor adds a
  candidate: it returns the same intervals and types, as a multiset.
\<close>

theorem C6_detect_duration_bounds:
  assumes "detectViralSegments opts env videoPath = Inr segs" and "s \<in> set segs"
  shows "minSegmentDuration opts \<le> end s - Segment.start s
         \<and> end s - Segment.start s \<le> maxSegmentDuration opts
         \<and> mset (map (\<lambda>s. (Segment.start s, end s, type s)) (scoreSegments opts cands))
           = mset (map (\<lambda>s. (Segment.start s, end s, type s)) cands)"
  using detectViralSegments_in_range [OF assms(1)] assms(2) scoreSegments_intervals [of opts cands]
  by (simp add: list_all_iff in_range_def)


theorem C6_detect_duration_bounds_witness:
  "detectViralSegments (ViralContentDetector None None None None) env_flicker ''talk.mp4''
   = Inr [\<lparr>Segment.start = 0, end = 10, score = 38 / 45, type = speech\<rparr>,
          \<lparr>Segment.start = 30, end = 40, score = 38 / 45, type = speech\<rparr>,
          \<lparr>Segment.start = 20, end = 25, score = 71 / 90, type = speech\<rparr>]
   \<and> minSegmentDuration (ViralContentDetector None None None None) \<le> 25 - 20
   \<and> (25::real) - 20 \<le> maxSegmentDuration (ViralContentDetector None None None None)"
proof -
  have run: "detectViralSegments (ViralContentDetector None None None None) env_flicker ''talk.mp4''
   = Inr [\<lparr>Segment.start = 0, end = 10, score = 38 / 45, type = speech\<rparr>,
          \<lparr>Segment.start = 30, end = 40, score = 38 / 45, type = speech\<rparr>,
          \<lparr>Segment.start = 20, end = 25, score = 71 / 90, type = speech\<rparr>]"
    by (simp add: detectViralSegments_def detect_try_def analyzeAudio_def getAudioDuration_def
      or_default_def ViralContentDetector_def scoreSegments_def scoreSegment_def
      calculateDurationScore_def js_sort_def Let_def env_flicker_def)
  show ?thesis
    using run C6_detect_duration_bounds [OF run,
        of "\<lparr>Segment.start = 20, end = 25, score = 71 / 90, type = speech\<rparr>"]
    by simp
qed

lemma analyze_loop_zero_duration:
  assumes "analyze_loop opts 0 n i levels [] cur = (segs', cur')"
    and "0 < minSegmentDuration opts"
    and "cur = None \<or> (\<exists>t. cur = Some (0, t))"
  shows "segs' = [] \<and> (cur' = None \<or> (\<exists>t. cur' = Some (0, t)))"
  using assms
proof (induction levels arbitrary: i cur)
  case Nil
  then show ?case by simp
next
  case (Cons e rest)
  show ?case
  proof (cases "e > energyThreshold opts")
    case True
    show ?thesis
    proof (cases cur)
      case None
      then have "analyze_loop opts 0 n (i + 1) rest [] (Some (0, speech)) = (segs', cur')"
        using Cons.prems(1) True by simp
      then show ?thesis
        using Cons.IH Cons.prems(2) by blast
    next
      case (Some p)
      then have "analyze_loop opts 0 n (i + 1) rest [] cur = (segs', cur')"
        using Cons.prems(1) True by simp
      then show ?thesis
        using Cons.IH Cons.prems(2,3) by blast
    qed
  next
    case False
    have "analyze_loop opts 0 n (i + 1) rest [] None = (segs', cur')"
      using Cons.prems False by (auto simp: Let_def)
    then show ?thesis
      using Cons.IH Cons.prems(2) by blast
  qed
qed

lemma analyzeAudio_zero_duration:
  assumes "getAudioDuration env audioPath = Inr 0" and "0 < minSegmentDuration opts"
  shows "analyzeAudio opts env audioPath = Inr []"
proof -
  let ?levels = "energy_samples env audioPath"
  obtain segs' cur' where
    run: "analyze_loop opts 0 (length ?levels) 0 ?levels [] None = (segs', cur')"
    by (cases "analyze_loop opts 0 (length ?levels) 0 ?levels [] None")
  have "segs' = [] \<and> (cur' = None \<or> (\<exists>t. cur' = Some (0, t)))"
    by (rule analyze_loop_zero_duration [OF run assms(2)]) simp
  then show ?thesis
    using assms run by (auto simp: analyzeAudio_def Let_def)
qed

lemma scoreSegments_Nil [simp]: "scoreSegments opts [] = []"
  by (simp add: scoreSegments_def js_sort_def)

lemma detectViralSegments_returns:
  "\<exists>segs. detectViralSegments opts env videoPath = Inr segs"
  by (simp add: detectViralSegments_def split: sum.splits)

lemma detectViralSegments_catch:
  "detect_try opts env videoPath = Inl err \<Longrightarrow> detectViralSegments opts env videoPath = Inr []"
  by (simp add: detectViralSegments_def)

lemma analyzeAudio_probe_fails:
  "ffprobe_duration env audioPath = Inl err \<Longrightarrow> analyzeAudio opts env audioPath = Inl err"
  by (simp add: analyzeAudio_def getAudioDuration_def)

text \<open>
  Claim C3 (amended): \<open>detect\<close> never fails with an error. On every input it returns a
  sequence to its caller; it returns the empty sequence when the video file does not
  exist, when the audio extraction is rejected, when the duration probe is rejected, and
  when the audio has zero duration and \<open>minSegmentDuration\<close> is positive.
\<close>

theorem C3_detect_never_fails:
  "(\<exists>segs. detectViralSegments opts env videoPath = Inr segs)
   \<and> (\<not> existsSync env videoPath \<longrightarrow> detectViralSegments opts env videoPath = Inr [])
   \<and> (\<forall>err. ffmpeg_extract env videoPath = Inl err
          \<longrightarrow> detectViralSegments opts env videoPath = Inr [])
   \<and> (\<forall>audioPath err. ffmpeg_extract env videoPath = Inr audioPath
            \<and> ffprobe_duration env audioPath = Inl err
          \<longrightarrow> detectViralSegments opts env videoPath = Inr [])
   \<and> (\<forall>audioPath. ffmpeg_extract env videoPath = Inr audioPath
            \<and> getAudioDuration env audioPath = Inr 0 \<and> 0 < minSegmentDuration opts
          \<longrightarrow> detectViralSegments opts env videoPath = Inr [])"
proof (intro conjI allI impI)
  show "\<exists>segs. detectViralSegments opts env videoPath = Inr segs"
    by (rule detectViralSegments_returns)
next
  assume "\<not> existsSync env videoPath"
  then show "detectViralSegments opts env videoPath = Inr []"
    by (simp add: detectViralSegments_def detect_try_def)
next
  fix err
  assume "ffmpeg_extract env videoPath = Inl err"
  then show "detectViralSegments opts env videoPath = Inr []"
    by (simp add: detectViralSegments_def detect_try_def)
next
  fix audioPath err
  assume "ffmpeg_extract env videoPath = Inr audioPath \<and> ffprobe_duration env audioPath = Inl err"
  then show "detectViralSegments opts env videoPath = Inr []"
    by (simp add: detectViralSegments_def detect_try_def analyzeAudio_probe_fails)
next
  fix audioPath
  assume a: "ffmpeg_extract env videoPath = Inr audioPath
             \<and> getAudioDuration env audioPath = Inr 0 \<and> 0 < minSegmentDuration opts"
  then have "analyzeAudio opts env audioPath = Inr []"
    by (simp add: analyzeAudio_zero_duration)
  then show "detectViralSegments opts env videoPath = Inr []"
    using a by (simp add: detectViralSegments_def detect_try_def split: sum.splits)
qed

text \<open>
  Claim C3 (as stated: \<open>detect\<close> fails with an error when the audio is unreadable or has
  zero duration). With an audio file the duration probe cannot read, the \<open>catch\<close> clause
  of \<open>detectViralSegments\<close> turns the rejection into the empty array, a normal value.
\<close>

theorem C3_detect_unreadable_returns_empty:
  "detectViralSegments (ViralContentDetector None None None None) env_unreadable ''talk.mp4''
   = Inr []"
  by (simp add: detectViralSegments_def detect_try_def analyzeAudio_def getAudioDuration_def
      env_unreadable_def)

theorem C3_detect_never_fails_witness:
  "ffmpeg_extract env_zero_duration ''talk.mp4'' = Inr ''talk.mp4_audio.wav''
   \<and> getAudioDuration env_zero_duration ''talk.mp4_audio.wav'' = Inr 0
   \<and> 0 < minSegmentDuration (ViralContentDetector None None None None)
   \<and> detectViralSegments (ViralContentDetector None None None None) env_zero_duration ''talk.mp4''
     = Inr []"
proof -
  have h: "ffmpeg_extract env_zero_duration ''talk.mp4'' = Inr ''talk.mp4_audio.wav''
     \<and> getAudioDuration env_zero_duration ''talk.mp4_audio.wav'' = Inr 0
     \<and> 0 < minSegmentDuration (ViralContentDetector None None None None)"
    by (simp add: env_zero_duration_def getAudioDuration_def or_default_def ViralContentDetector_def)
  show ?thesis
    using h C3_detect_never_fails
      [of "ViralContentDetector None None None None" env_zero_duration "''talk.mp4''"]
    by blast
qed

section \<open>Properties of the transcript relevance scorer\<close>

lemma analyzeViralPotential_returns:
  "\<exists>analysis. analyzeViralPotential pf json_parse outcome = Inr analysis"
  by (cases outcome) (simp_all add: analyzeViralPotential_def)

lemma analyze_caption_returns:
  "analyze_caption pf json_parse scorer k c = Inr (projr (analyze_caption pf json_parse scorer k c))"
proof -
  obtain analysis where "analyzeViralPotential pf json_parse (scorer k (text c)) = Inr analysis"
    using analyzeViralPotential_returns by blast
  then show ?thesis
    by (simp add: analyze_caption_def)
qed

lemma promise_all_resolved:
  assumes "\<And>p. p \<in> set ps \<Longrightarrow> p = Inr (projr p)"
  shows "promise_all ps = Inr (map projr ps)"
  using assms
proof (induction ps)
  case Nil
  then show ?case by simp
next
  case (Cons p ps)
  have "p = Inr (projr p)"
    using Cons.prems by simp
  moreover have "promise_all ps = Inr (map projr ps)"
    using Cons by simp
  ultimately show ?case
    by (metis list.simps(9) promise_all.simps(3) sum.simps(6))
qed

lemma batch_indices:
  assumes "i < length cs"
  shows "zip [i ..< i + length (take 3 (drop i cs))] (take 3 (drop i cs))
         = map (\<lambda>k. (k, cs ! k)) [i ..< min (i + 3) (length cs)]"
proof (rule nth_equalityI)
  show "length (zip [i ..< i + length (take 3 (drop i cs))] (take 3 (drop i cs)))
        = length (map (\<lambda>k. (k, cs ! k)) [i ..< min (i + 3) (length cs)])"
    using assms by auto
next
  fix j
  assume "j < length (zip [i ..< i + length (take 3 (drop i cs))] (take 3 (drop i cs)))"
  then have j: "j < 3" "j < length cs - i"
    by simp_all
  then show "zip [i ..< i + length (take 3 (drop i cs))] (take 3 (drop i cs)) ! j
             = map (\<lambda>k. (k, cs ! k)) [i ..< min (i + 3) (length cs)] ! j"
    using assms by (simp add: min_def)
qed

lemma batch_loop_results:
  "batch_loop pf json_parse scorer captions i results
   = Inr (results @ map (\<lambda>k. projr (analyze_caption pf json_parse scorer k (captions ! k)))
                        [i ..< length captions])"
proof (induction pf json_parse scorer captions i results rule: batch_loop.induct)
  case (1 pf json_parse scorer captions i results)
  let ?item = "\<lambda>k. projr (analyze_caption pf json_parse scorer k (captions ! k))"
  show ?case
  proof (cases "i < length captions")
    case False
    then show ?thesis
      by (subst batch_loop.simps) simp
  next
    case True
    let ?batch = "take 3 (drop i captions)"
    let ?promises = "map (\<lambda>(k, c). analyze_caption pf json_parse scorer k c)
                         (zip [i ..< i + length ?batch] ?batch)"
    let ?m = "min (i + 3) (length captions)"
    have promises: "?promises = map (\<lambda>k. analyze_caption pf json_parse scorer k (captions ! k)) [i ..< ?m]"
      by (simp only: batch_indices [OF True] map_map comp_def prod.case)
    have all: "promise_all ?promises = Inr (map ?item [i ..< ?m])"
    proof -
      have "promise_all ?promises = Inr (map projr ?promises)"
        by (rule promise_all_resolved) (auto simp: promises analyze_caption_returns [symmetric])
      then show ?thesis
        by (simp only: promises map_map comp_def)
    qed
    have next_loop: "batch_loop pf json_parse scorer captions (i + 3) (results @ map ?item [i ..< ?m])
          = Inr ((results @ map ?item [i ..< ?m]) @ map ?item [i + 3 ..< length captions])"
      by (rule "1.IH" [OF True refl refl all])
    have split: "[i ..< ?m] @ [i + 3 ..< length captions] = [i ..< length captions]"
    proof (cases "i + 3 \<le> length captions")
      case True
      then show ?thesis
        by (simp add: min_def upt_add_eq_append [symmetric] le_Suc_ex)
           (metis le_add1 upt_add_eq_append le_Suc_ex)
    next
      case False
      then show ?thesis by (simp add: min_def)
    qed
    have "batch_loop pf json_parse scorer captions i results
          = batch_loop pf json_parse scorer captions (i + 3) (results @ map ?item [i ..< ?m])"
      using True all by (subst batch_loop.simps) (simp add: Let_def)
    also note next_loop
    finally show ?thesis
      by (simp add: split [symmetric])
  qed
qed

lemma analyzeMultipleSegments_results:
  "analyzeMultipleSegments pf json_parse scorer captions
   = Inr (js_sort (\<lambda>a b. AnalysisResult.score b - AnalysisResult.score a)
            (map (\<lambda>k. projr (analyze_caption pf json_parse scorer k (captions ! k)))
                 [0 ..< length captions]))"
  by (simp only: analyzeMultipleSegments_def batch_loop_results append_Nil sum.case)

lemma result_fields_throws_iff:
  "isl (result_fields pf v) \<longleftrightarrow>
     v = JNull \<or> (\<exists>sc. property v ''score'' = Some sc \<and> toString_throws sc)"
  by (cases v) (auto simp: result_fields_def parseFloat_def split: option.splits)

lemma scoring_failed_iff:
  "scoring_failed pf json_parse outcome \<longleftrightarrow>
     (\<exists>err. outcome = Rejected err) \<or> outcome = Content None
     \<or> (\<exists>s. outcome = Content (Some (JStr s)) \<and> json_parse s = None)
     \<or> (\<exists>v. (outcome = Content (Some v) \<and> (\<forall>s. v \<noteq> JStr s)
               \<or> (\<exists>s. outcome = Content (Some (JStr s)) \<and> json_parse s = Some v))
            \<and> (v = JNull \<or> (\<exists>sc. property v ''score'' = Some sc \<and> toString_throws sc)))"
proof (cases outcome)
  case (Rejected err)
  then show ?thesis
    by (simp add: scoring_failed_def)
next
  case (Content result)
  show ?thesis
  proof (cases result)
    case None
    then show ?thesis
      using Content by (simp add: scoring_failed_def parse_try_def)
  next
    case (Some v)
    show ?thesis
    proof (cases "\<exists>s. v = JStr s")
      case True
      then obtain s where s: "v = JStr s"
        by blast
      show ?thesis
      proof (cases "json_parse s")
        case None
        then show ?thesis
          using Content Some s by (simp add: scoring_failed_def parse_try_def)
      next
        case parsed: (Some w)
        have "scoring_failed pf json_parse outcome \<longleftrightarrow> isl (result_fields pf w)"
          using Content Some s parsed by (simp add: scoring_failed_def parse_try_def)
        then show ?thesis
          using Content Some s parsed by (auto simp: result_fields_throws_iff)
      qed
    next
      case False
      then have "parse_try pf json_parse (Some v) = result_fields pf v"
        by (cases v) (simp_all add: parse_try_def)
      then have "scoring_failed pf json_parse outcome \<longleftrightarrow> isl (result_fields pf v)"
        using Content Some by (simp add: scoring_failed_def)
      then show ?thesis
        using Content Some False by (auto simp: result_fields_throws_iff)
    qed
  qed
qed

lemma failed_item:
  assumes "scoring_failed pf json_parse (scorer k (text c))"
  shows "\<exists>r. analyze_caption pf json_parse scorer k c = Inr r
             \<and> AnalysisResult.score r = 0 \<and> caption r = c
             \<and> (reasons r = [JStr ''Error analyzing content'']
                \<or> reasons r = [JStr ''Error parsing analysis result''])"
proof (cases "scorer k (text c)")
  case (Rejected err)
  then show ?thesis
    by (simp add: analyze_caption_def analyzeViralPotential_def)
next
  case (Content result)
  then have "isl (parse_try pf json_parse result)"
    using assms by (simp add: scoring_failed_def)
  then obtain err where "parse_try pf json_parse result = Inl err"
    by (cases "parse_try pf json_parse result") simp_all
  then show ?thesis
    using Content by (simp add: analyze_caption_def analyzeViralPotential_def parseAnalysisResult_def)
qed

text \<open>
  Claim C8: for every sequence of transcript segments and every behaviour of the scoring
  service, \<open>scoreAll\<close> returns normally, with one result per segment, each the result of
  that segment's own call (so a failure changes no other result of its batch); and for a
  segment whose call failed (rejected request, unreadable or unparseable response) that
  result has score 0 and one diagnostic reason string. A call has failed when the request
  is rejected or the parser throws, which by \<open>scoring_failed_iff\<close> is the case of a
  content that is absent or is text that is not JSON, or whose value is \<open>null\<close> or has a
  \<open>score\<close> field whose conversion to a string throws; a response that parses but lacks
  fields is no failure and is coerced field by field.
\<close>

theorem C8_scoring_failure_isolated:
  "\<exists>rs. analyzeMultipleSegments pf json_parse scorer captions = Inr rs
        \<and> mset (map Inr rs)
          = mset (map (\<lambda>k. analyze_caption pf json_parse scorer k (captions ! k))
                      [0 ..< length captions])
        \<and> (\<forall>k < length captions.
              scoring_failed pf json_parse (scorer k (text (captions ! k))) \<longrightarrow>
              (\<exists>r \<in> set rs.
                  analyze_caption pf json_parse scorer k (captions ! k) = Inr r
                  \<and> AnalysisResult.score r = 0 \<and> caption r = captions ! k
                  \<and> (reasons r = [JStr ''Error analyzing content'']
                     \<or> reasons r = [JStr ''Error parsing analysis result''])))"
proof -
  let ?item = "\<lambda>k. projr (analyze_caption pf json_parse scorer k (captions ! k))"
  let ?rs = "js_sort (\<lambda>a b. AnalysisResult.score b - AnalysisResult.score a)
               (map ?item [0 ..< length captions])"
  have run: "analyzeMultipleSegments pf json_parse scorer captions = Inr ?rs"
    by (rule analyzeMultipleSegments_results)
  have "mset (map Inr ?rs) = image_mset Inr (mset (map ?item [0 ..< length captions]))"
    by (simp add: mset_js_sort)
  also have "\<dots> = mset (map (\<lambda>k. Inr (?item k)) [0 ..< length captions])"
    by (simp add: image_mset.compositionality comp_def)
  also have "\<dots> = mset (map (\<lambda>k. analyze_caption pf json_parse scorer k (captions ! k))
                             [0 ..< length captions])"
    by (simp only: analyze_caption_returns [symmetric])
  finally have items: "mset (map Inr ?rs)
          = mset (map (\<lambda>k. analyze_caption pf json_parse scorer k (captions ! k))
                      [0 ..< length captions])" .
  have failed: "\<exists>r \<in> set ?rs.
                  analyze_caption pf json_parse scorer k (captions ! k) = Inr r
                  \<and> AnalysisResult.score r = 0 \<and> caption r = captions ! k
                  \<and> (reasons r = [JStr ''Error analyzing content'']
                     \<or> reasons r = [JStr ''Error parsing analysis result''])"
    if k: "k < length captions"
      and f: "scoring_failed pf json_parse (scorer k (text (captions ! k)))" for k
  proof -
    obtain r where r: "analyze_caption pf json_parse scorer k (captions ! k) = Inr r"
      "AnalysisResult.score r = 0" "caption r = captions ! k"
      "reasons r = [JStr ''Error analyzing content'']
       \<or> reasons r = [JStr ''Error parsing analysis result'']"
      using failed_item [of pf json_parse scorer k "captions ! k"] f by blast
    have "?item k \<in> set ?rs"
      using k by (simp add: set_js_sort)
    moreover have "?item k = r"
      using r(1) by simp
    ultimately show ?thesis
      using r by blast
  qed
  show ?thesis
    using run items failed by blast
qed

lemma analyzeMultipleSegments_sample:
 "analyzeMultipleSegments (\<lambda>s. None) (\<lambda>s. None) scorer_second_fails
       [\<lparr>Caption.start = 0, duration = 5, text = ''a''\<rparr>,
        \<lparr>Caption.start = 5, duration = 5, text = ''b''\<rparr>]
  = Inr [\<lparr>AnalysisResult.score = 0.8, reasons = [JStr ''funny''], emotions = [], keywords = [], summary = JStr '''', caption =  \<lparr>Caption.start = 0, duration = 5, text = ''a''\<rparr>\<rparr>,
     \<lparr>AnalysisResult.score = 0, reasons = [JStr ''Error analyzing content''], emotions = [], keywords = [], summary = JStr ''Analysis failed'', caption =  \<lparr>Caption.start = 5, duration = 5, text = ''b''\<rparr>\<rparr>]"
  by (simp add: analyzeMultipleSegments_results analyze_caption_def analyzeViralPotential_def
        parseAnalysisResult_def parse_try_def result_fields_def property_def parseFloat_def
        or_default_def array_or_empty_def or_empty_string_def truthy_def scorer_second_fails_def
        js_sort_def)

theorem C8_scoring_failure_isolated_witness:
  "Suc 0 < length [\<lparr>Caption.start = 0, duration = 5, text = ''a''\<rparr>,
                   \<lparr>Caption.start = 5, duration = 5, text = ''b''\<rparr>]
   \<and> scoring_failed (\<lambda>s. None) (\<lambda>s. None) (scorer_second_fails (Suc 0) ''b'')
   \<and> (\<exists>rs. analyzeMultipleSegments (\<lambda>s. None) (\<lambda>s. None) scorer_second_fails
               [\<lparr>Caption.start = 0, duration = 5, text = ''a''\<rparr>,
                \<lparr>Caption.start = 5, duration = 5, text = ''b''\<rparr>] = Inr rs
           \<and> length rs = 2
           \<and> (\<exists>r \<in> set rs. AnalysisResult.score r = 0
                  \<and> caption r = \<lparr>Caption.start = 5, duration = 5, text = ''b''\<rparr>
                  \<and> reasons r = [JStr ''Error analyzing content'']))"
proof -
  let ?caps = "[\<lparr>Caption.start = 0, duration = 5, text = ''a''\<rparr>,
                \<lparr>Caption.start = 5, duration = 5, text = ''b''\<rparr>]"
  have failed: "scoring_failed (\<lambda>s. None) (\<lambda>s. None) (scorer_second_fails (Suc 0) ''b'')"
    by (simp add: scoring_failed_def scorer_second_fails_def)
  obtain rs where rs: "analyzeMultipleSegments (\<lambda>s. None) (\<lambda>s. None) scorer_second_fails ?caps = Inr rs"
    and items: "mset (map Inr rs)
          = mset (map (\<lambda>k. analyze_caption (\<lambda>s. None) (\<lambda>s. None) scorer_second_fails k (?caps ! k))
                      [0 ..< length ?caps])"
    and isolated: "\<forall>k < length ?caps.
              scoring_failed (\<lambda>s. None) (\<lambda>s. None) (scorer_second_fails k (text (?caps ! k))) \<longrightarrow>
              (\<exists>r \<in> set rs.
                  analyze_caption (\<lambda>s. None) (\<lambda>s. None) scorer_second_fails k (?caps ! k) = Inr r
                  \<and> AnalysisResult.score r = 0 \<and> caption r = ?caps ! k
                  \<and> (reasons r = [JStr ''Error analyzing content'']
                     \<or> reasons r = [JStr ''Error parsing analysis result'']))"
    using C8_scoring_failure_isolated [of "\<lambda>s. None" "\<lambda>s. None" scorer_second_fails ?caps]
    by blast
  have "size (mset (map Inr rs :: (error + CaptionAnalysis) list))
        = size (mset (map (\<lambda>k. analyze_caption (\<lambda>s. None) (\<lambda>s. None) scorer_second_fails k (?caps ! k))
                      [0 ..< length ?caps]))"
    by (rule arg_cong [where f = size, OF items])
  then have len: "length rs = 2"
    by simp
  have idx: "Suc 0 < length ?caps" and caption_text: "text (?caps ! Suc 0) = ''b''"
    by simp_all
  have "\<exists>r \<in> set rs.
          analyze_caption (\<lambda>s. None) (\<lambda>s. None) scorer_second_fails (Suc 0) (?caps ! Suc 0) = Inr r
          \<and> AnalysisResult.score r = 0 \<and> caption r = ?caps ! Suc 0
          \<and> (reasons r = [JStr ''Error analyzing content'']
             \<or> reasons r = [JStr ''Error parsing analysis result''])"
    by (rule isolated [rule_format, OF idx, unfolded caption_text, OF failed])
  then obtain r where r: "r \<in> set rs"
    "analyze_caption (\<lambda>s. None) (\<lambda>s. None) scorer_second_fails (Suc 0) (?caps ! Suc 0) = Inr r"
    "AnalysisResult.score r = 0" "caption r = ?caps ! Suc 0"
    by blast
  have "analyze_caption (\<lambda>s. None) (\<lambda>s. None) scorer_second_fails (Suc 0) (?caps ! Suc 0)
        = Inr \<lparr>AnalysisResult.score = 0, reasons = [JStr ''Error analyzing content''],
                emotions = [], keywords = [], summary = JStr ''Analysis failed'',
                caption = \<lparr>Caption.start = 5, duration = 5, text = ''b''\<rparr>\<rparr>"
    by (simp add: analyze_caption_def analyzeViralPotential_def scorer_second_fails_def)
  then have "reasons r = [JStr ''Error analyzing content'']"
    and "caption r = \<lparr>Caption.start = 5, duration = 5, text = ''b''\<rparr>"
    using r(2) by auto
  then have "\<exists>r \<in> set rs. AnalysisResult.score r = 0
                  \<and> caption r = \<lparr>Caption.start = 5, duration = 5, text = ''b''\<rparr>
                  \<and> reasons r = [JStr ''Error analyzing content'']"
    using r(1,3) by blast
  then show ?thesis
    using failed rs len idx by blast
qed

lemma parse_object:
  "parse_try pf json_parse (Some (JObj kvs)) = result_fields pf (JObj kvs)"
  by (simp add: parse_try_def)

lemma parse_object_text:
  "json_parse s = Some (JObj kvs) \<Longrightarrow>
   parse_try pf json_parse (Some (JStr s)) = result_fields pf (JObj kvs)"
  by (simp add: parse_try_def)

lemma parseAnalysisResult_object:
  assumes "responseText = Some (JObj kvs)
           \<or> (\<exists>s. responseText = Some (JStr s) \<and> json_parse s = Some (JObj kvs))"
    and "parseFloat pf (map_of kvs ''score'') = Inr number"
  shows "parseAnalysisResult pf json_parse responseText =
          \<lparr>AnalysisResult.score = or_default number 0,
           reasons = array_or_empty (map_of kvs ''reasons''),
           emotions = array_or_empty (map_of kvs ''emotions''),
           keywords = array_or_empty (map_of kvs ''keywords''),
           summary = or_empty_string (map_of kvs ''summary'')\<rparr>"
  using assms
  by (auto simp: parseAnalysisResult_def parse_object parse_object_text result_fields_def property_def)

lemma parseAnalysisResult_object_throws:
  assumes "responseText = Some (JObj kvs)
           \<or> (\<exists>s. responseText = Some (JStr s) \<and> json_parse s = Some (JObj kvs))"
    and "parseFloat pf (map_of kvs ''score'') = Inl err"
  shows "parseAnalysisResult pf json_parse responseText =
          \<lparr>AnalysisResult.score = 0,
           reasons = [JStr ''Error parsing analysis result''],
           emotions = [],
           keywords = [],
           summary = JStr ''Failed to parse analysis''\<rparr>"
  using assms
  by (auto simp: parseAnalysisResult_def parse_object parse_object_text result_fields_def property_def)

lemma parseFloat_cases:
  "parseFloat pf x =
     (if \<exists>v. x = Some v \<and> toString_throws v
      then Inl (Error ''TypeError: Cannot convert object to primitive value'')
      else Inr (case x of None \<Rightarrow> None | Some v \<Rightarrow> read_number pf v))"
  by (cases x) (simp_all add: parseFloat_def)

text \<open>
  Claim C9 (amended): the score is not confined to \<open>[0,1]\<close>. For a response that is an
  object, or text that parses to one: the result's score is the number in the \<open>score\<close>
  field as it stands; a missing or non-numeric \<open>score\<close> field (absent, \<open>null\<close>, a
  boolean, an object, a string \<open>parseFloat\<close> reads no number from) coerces to 0; missing
  \<open>emotions\<close> and \<open>keywords\<close> fields coerce to empty sequences; a missing \<open>reasons\<close>
  field coerces to the empty sequence provided the conversion of the \<open>score\<close> field to a
  string does not throw. When that conversion throws (the \<open>score\<close> field is an object with
  an own key \<open>toString\<close>, or an array holding such an object at any depth), the response
  is handled as unparseable: score 0, the single reason
  \<open>Error parsing analysis result\<close>, empty \<open>emotions\<close> and \<open>keywords\<close>.
\<close>

theorem C9_parse_coercions:
  assumes "responseText = Some (JObj kvs)
           \<or> (\<exists>s. responseText = Some (JStr s) \<and> json_parse s = Some (JObj kvs))"
  shows "(\<forall>n. map_of kvs ''score'' = Some (JNum n) \<longrightarrow>
            AnalysisResult.score (parseAnalysisResult pf json_parse responseText) = n)
       \<and> (map_of kvs ''score'' = None \<or> map_of kvs ''score'' = Some JNull
            \<or> (\<exists>b. map_of kvs ''score'' = Some (JBool b))
            \<or> (\<exists>ob. map_of kvs ''score'' = Some (JObj ob))
            \<or> (\<exists>s. map_of kvs ''score'' = Some (JStr s) \<and> pf s = None) \<longrightarrow>
            AnalysisResult.score (parseAnalysisResult pf json_parse responseText) = 0)
       \<and> (map_of kvs ''emotions'' = None \<longrightarrow>
            emotions (parseAnalysisResult pf json_parse responseText) = [])
       \<and> (map_of kvs ''keywords'' = None \<longrightarrow>
            keywords (parseAnalysisResult pf json_parse responseText) = [])
       \<and> (map_of kvs ''reasons'' = None
            \<and> (\<forall>v. map_of kvs ''score'' = Some v \<longrightarrow> \<not> toString_throws v) \<longrightarrow>
            reasons (parseAnalysisResult pf json_parse responseText) = [])
       \<and> ((\<exists>v. map_of kvs ''score'' = Some v \<and> toString_throws v) \<longrightarrow>
            AnalysisResult.score (parseAnalysisResult pf json_parse responseText) = 0
            \<and> reasons (parseAnalysisResult pf json_parse responseText)
                = [JStr ''Error parsing analysis result'']
            \<and> emotions (parseAnalysisResult pf json_parse responseText) = []
            \<and> keywords (parseAnalysisResult pf json_parse responseText) = [])"
proof (cases "\<exists>v. map_of kvs ''score'' = Some v \<and> toString_throws v")
  case True
  then have "parseFloat pf (map_of kvs ''score'')
             = Inl (Error ''TypeError: Cannot convert object to primitive value'')"
    by (simp only: parseFloat_cases if_True)
  note result = parseAnalysisResult_object_throws [OF assms this]
  show ?thesis
    unfolding result using True by auto
next
  case False
  then have "parseFloat pf (map_of kvs ''score'')
             = Inr (case map_of kvs ''score'' of None \<Rightarrow> None | Some v \<Rightarrow> read_number pf v)"
    by (simp only: parseFloat_cases if_False)
  note result = parseAnalysisResult_object [OF assms this]
  show ?thesis
    unfolding result using False by (auto simp: or_default_def array_or_empty_def)
qed

text \<open>
  Claim C9 (as stated: every result has its score in \<open>[0,1]\<close>). A response with
  \<open>score: 5\<close> gives a result with score 5; nothing clamps it.
\<close>

theorem C9_score_not_clamped:
  "AnalysisResult.score
     (parseAnalysisResult (\<lambda>s. None) (\<lambda>s. None) (Some (JObj [(''score'', JNum 5)]))) = 5
   \<and> \<not> (5::real) \<le> 1"
  by (simp add: parseAnalysisResult_def parse_try_def result_fields_def property_def
        parseFloat_def or_default_def)

text \<open>
  The response \<open>{"score": {"toString": 1}}\<close> has no \<open>reasons\<close> field, and the result does
  not have the empty sequence there: \<open>parseFloat\<close> throws inside the \<open>try\<close> block and the
  \<open>catch\<close> clause supplies its diagnostic.
\<close>

lemma parseAnalysisResult_score_conversion_throws:
  "parseAnalysisResult (\<lambda>s. None) (\<lambda>s. None)
     (Some (JObj [(''score'', JObj [(''toString'', JNum 1)])]))
   = \<lparr>AnalysisResult.score = 0,
      reasons = [JStr ''Error parsing analysis result''],
      emotions = [],
      keywords = [],
      summary = JStr ''Failed to parse analysis''\<rparr>"
  by (simp add: parseAnalysisResult_def parse_try_def result_fields_def property_def
        parseFloat_def)

theorem C9_parse_coercions_witness:
  "AnalysisResult.score
     (parseAnalysisResult (\<lambda>s. None) (\<lambda>s. None)
        (Some (JObj [(''score'', JStr ''high''), (''summary'', JStr ''a joke'')]))) = 0
   \<and> reasons
     (parseAnalysisResult (\<lambda>s. None) (\<lambda>s. None)
        (Some (JObj [(''score'', JStr ''high''), (''summary'', JStr ''a joke'')]))) = []
   \<and> AnalysisResult.score
     (parseAnalysisResult (\<lambda>s. None) (\<lambda>s. None)
        (Some (JObj [(''score'', JNum 1), (''reasons'', JArr [JStr ''funny''])]))) = 1
   \<and> reasons
     (parseAnalysisResult (\<lambda>s. None) (\<lambda>s. None)
        (Some (JObj [(''score'', JArr [JNum 0.5, JObj [(''toString'', JNum 1)]])])))
     = [JStr ''Error parsing analysis result'']"
proof -
  have plain: "AnalysisResult.score
     (parseAnalysisResult (\<lambda>s. None) (\<lambda>s. None)
        (Some (JObj [(''score'', JStr ''high''), (''summary'', JStr ''a joke'')]))) = 0
   \<and> reasons
     (parseAnalysisResult (\<lambda>s. None) (\<lambda>s. None)
        (Some (JObj [(''score'', JStr ''high''), (''summary'', JStr ''a joke'')]))) = []"
    using C9_parse_coercions
      [of "Some (JObj [(''score'', JStr ''high''), (''summary'', JStr ''a joke'')])"
          "[(''score'', JStr ''high''), (''summary'', JStr ''a joke'')]" "\<lambda>s. None" "\<lambda>s. None"]
    by simp
  have number: "AnalysisResult.score
     (parseAnalysisResult (\<lambda>s. None) (\<lambda>s. None)
        (Some (JObj [(''score'', JNum 1), (''reasons'', JArr [JStr ''funny''])]))) = 1"
    using C9_parse_coercions
      [of "Some (JObj [(''score'', JNum 1), (''reasons'', JArr [JStr ''funny''])])"
          "[(''score'', JNum 1), (''reasons'', JArr [JStr ''funny''])]" "\<lambda>s. None" "\<lambda>s. None"]
    by simp
  have throws: "reasons
     (parseAnalysisResult (\<lambda>s. None) (\<lambda>s. None)
        (Some (JObj [(''score'', JArr [JNum 0.5, JObj [(''toString'', JNum 1)]])])))
     = [JStr ''Error parsing analysis result'']"
    using C9_parse_coercions
      [of "Some (JObj [(''score'', JArr [JNum 0.5, JObj [(''toString'', JNum 1)]])])"
          "[(''score'', JArr [JNum 0.5, JObj [(''toString'', JNum 1)]])]" "\<lambda>s. None" "\<lambda>s. None"]
    by simp
  show ?thesis
    using plain number throws by (simp only: simp_thms)
qed

section \<open>Properties of the fusion engine\<close>

lemma insort_cmp_difference:
  "insort_cmp (\<lambda>a b. f b - f a) x ys = insort_key (\<lambda>x. - f x) x ys"
  by (induction ys) simp_all

lemma js_sort_difference:
  "js_sort (\<lambda>a b. f b - f a) xs = sort_key (\<lambda>x. - f x) xs"
  by (induction xs) (simp_all add: js_sort_def insort_cmp_difference)

lemma js_sort_descending:
  "sorted_wrt (\<lambda>a b. f b \<le> f a) (js_sort (\<lambda>a b. f b - f a) xs)"
proof -
  have "sorted (map (\<lambda>x. - f x) (sort_key (\<lambda>x. - f x) xs))"
    by (rule sorted_sort_key)
  then show ?thesis
    by (simp add: js_sort_difference sorted_map)
qed

lemma overlapping_code_spec:
  "findOverlappingCaptions A (map captionSegment rs) = map captionSegment (overlapping_spec A rs)"
  by (induction rs)
     (auto simp: findOverlappingCaptions_def overlapping_spec_def captionSegment_def
        segmentsOverlap_def overlap_spec_def)

lemma reduce_sum:
  "foldl (\<lambda>sum (start0, end0, analysis). sum + AnalysisResult.score analysis) acc
         (map captionSegment rs)
   = acc + sum_list (map AnalysisResult.score rs)"
  by (induction rs arbitrary: acc) (simp_all add: captionSegment_def)

lemma reduce_best_captionSegment:
  "foldl (\<lambda>best current.
            if AnalysisResult.score (snd (snd current)) > AnalysisResult.score (snd (snd best))
            then current else best)
         (captionSegment b) (map captionSegment rs)
   = captionSegment (foldl better b rs)"
proof (induction rs arbitrary: b)
  case Nil
  then show ?case by simp
next
  case (Cons r rs)
  have "(if AnalysisResult.score (snd (snd (captionSegment r)))
            > AnalysisResult.score (snd (snd (captionSegment b)))
         then captionSegment r else captionSegment b) = captionSegment (better b r)"
    by (simp add: better_def captionSegment_def)
  then show ?case
    using Cons.IH [of "better b r"] by simp
qed

lemma first_max_fold:
  "find (is_max (b # rs)) (b # rs) = Some (foldl better b rs)"
proof (induction rs arbitrary: b)
  case Nil
  then show ?case by simp
next
  case (Cons x rs)
  show ?case
  proof (cases "AnalysisResult.score x > AnalysisResult.score b")
    case True
    have "find (is_max (b # x # rs)) (b # x # rs) = find (is_max (b # x # rs)) (x # rs)"
      using True by simp
    also have "\<dots> = find (is_max (x # rs)) (x # rs)"
      using True by (intro find_cong refl) (auto simp: list_all_iff)
    also have "\<dots> = Some (foldl better x rs)"
      by (rule Cons.IH)
    finally have "find (is_max (b # x # rs)) (b # x # rs) = Some (foldl better x rs)" .
    moreover have "better b x = x"
      using True by (simp add: better_def)
    ultimately show ?thesis
      by simp
  next
    case False
    then have le: "AnalysisResult.score x \<le> AnalysisResult.score b"
      by simp
    have IH: "find (is_max (b # rs)) (b # rs) = Some (foldl better b rs)"
      by (rule Cons.IH)
    have "find (is_max (b # x # rs)) (b # x # rs) = find (is_max (b # rs)) (b # rs)"
    proof (cases "is_max (b # rs) b")
      case True
      then show ?thesis using le by simp
    next
      case not_max: False
      then have nb: "\<not> is_max (b # x # rs) b"
        by simp
      have nx: "\<not> is_max (b # x # rs) x"
        using not_max le by (auto simp: list_all_iff)
      have rest: "find (is_max (b # x # rs)) rs = find (is_max (b # rs)) rs"
        using le by (intro find_cong refl) (auto simp: list_all_iff)
      have "find (is_max (b # x # rs)) (b # x # rs) = find (is_max (b # x # rs)) rs"
        by (simp only: find.simps nb nx if_False)
      also note rest
      also have "find (is_max (b # rs)) rs = find (is_max (b # rs)) (b # rs)"
        by (simp only: find.simps not_max if_False)
      finally show ?thesis .
    qed
    moreover have "better b x = b"
      using False by (simp add: better_def)
    ultimately show ?thesis
      using IH by simp
  qed
qed

lemma enhance_fuse_acoustic_spec:
  "enhance rs A = fuse_acoustic_spec rs A"
proof (cases "overlapping_spec A rs")
  case Nil
  then show ?thesis
    by (simp add: enhance_def fuse_acoustic_spec_def overlapping_code_spec)
next
  case (Cons b ov)
  have best: "snd (snd (foldl (\<lambda>best current.
                  if AnalysisResult.score (snd (snd current)) > AnalysisResult.score (snd (snd best))
                  then current else best)
                (captionSegment b) (map captionSegment (b # ov))))
              = foldl better b ov"
    by (simp only: reduce_best_captionSegment) (simp add: better_def captionSegment_def)
  have best_spec: "best_spec (b # ov) = Some (foldl better b ov)"
    unfolding best_spec_def by (rule first_max_fold)
  have texts: "map (\<lambda>(start0, end0, analysis). text (caption analysis)) (map captionSegment (b # ov))
               = map (\<lambda>R. text (caption R)) (b # ov)"
    by (simp add: captionSegment_def comp_def)
  have total: "foldl (\<lambda>sum (start0, end0, analysis). sum + AnalysisResult.score analysis) 0
                 (map captionSegment (b # ov))
               = sum_list (map AnalysisResult.score (b # ov))"
    using reduce_sum [of 0 "b # ov"] by simp
  have code: "enhance rs A =
      \<lparr>Segment.start = Segment.start A, end = end A, score = Segment.score A, type = type A,
       captionText = Some (join '' '' (map (\<lambda>R. text (caption R)) (b # ov))),
       aiAnalysis = Some (foldl better b ov),
       combinedScore = Segment.score A * 0.4
         + sum_list (map AnalysisResult.score (b # ov)) / real (length (b # ov)) * 0.6\<rparr>"
  proof -
    have first: "(case map captionSegment (b # ov) of first # _ \<Rightarrow> g first | [] \<Rightarrow> e)
                 = g (captionSegment b)" for g :: "_ \<Rightarrow> EnhancedSegment" and e
      by simp
    show ?thesis
      unfolding enhance_def overlapping_code_spec Cons Let_def
      by (simp only: first best texts total length_map)
  qed
  have spec: "fuse_acoustic_spec rs A =
      \<lparr>Segment.start = Segment.start A, end = end A, score = Segment.score A, type = type A,
       captionText = Some (join '' '' (map (\<lambda>R. text (caption R)) (b # ov))),
       aiAnalysis = Some (foldl better b ov),
       combinedScore = 0.4 * Segment.score A
         + 0.6 * mean_spec (map AnalysisResult.score (b # ov))\<rparr>"
    unfolding fuse_acoustic_spec_def Cons Let_def best_spec
    by simp
  show ?thesis
    unfolding code spec mean_spec_def by (simp only: mult.commute length_map)
qed

lemma audio_loop_map:
  "audio_loop rs es audio = es @ map (enhance rs) audio"
  by (induction audio arbitrary: es) simp_all

lemma caption_only_orphan_spec: "caption_only R = orphan_spec R"
  by (simp add: caption_only_def orphan_spec_def)

lemma caption_loop_step:
  "caption_loop es (R # rs) = caption_loop (orphan_step_spec es R) rs"
proof -
  have "list_ex (\<lambda>segment. segmentsOverlap (Segment.start segment, end segment)
                    (fst (captionSegment R), fst (snd (captionSegment R)))) es
        \<longleftrightarrow> \<not> list_all (\<lambda>F. \<not> overlap_spec (Caption.start (caption R))
                                         (Caption.start (caption R) + duration (caption R))
                                         (Segment.start F) (end F)) es"
    by (auto simp: list_ex_iff list_all_iff segmentsOverlap_def overlap_spec_def captionSegment_def)
  then show ?thesis
    by (auto simp: orphan_step_spec_def caption_only_orphan_spec Let_def not_less)
qed

lemma caption_loop_foldl:
  "caption_loop es rs = foldl orphan_step_spec es rs"
proof (induction rs arbitrary: es)
  case Nil
  then show ?case by simp
next
  case (Cons R rs)
  then show ?case
    by (simp only: caption_loop_step foldl_Cons)
qed

lemma combine_unsorted:
  "caption_loop (audio_loop rs [] audio) rs
   = foldl orphan_step_spec (map (fuse_acoustic_spec rs) audio) rs"
proof -
  have "enhance rs = fuse_acoustic_spec rs"
    by (rule ext) (rule enhance_fuse_acoustic_spec)
  then show ?thesis
    by (simp add: caption_loop_foldl audio_loop_map)
qed

text \<open>
  Claim C1: for every list of acoustic segments and every list of relevance results,
  \<open>fuse\<close> returns what the specification describes. Each acoustic segment \<open>A\<close> gives one
  fused segment: with at least one relevance result whose interval
  \<open>[start, start + duration)\<close> overlaps \<open>[A.start, A.end)\<close>, its combined score is
  \<open>0.4 \<cdot> A.score + 0.6 \<cdot> mean\<close> of the overlapping scores, its caption text is the
  overlapping texts joined by spaces in input order, and its relevance is the first
  overlapping result of maximal score; with none, its combined score is \<open>0.7 \<cdot> A.score\<close>
  and no caption text or relevance is attached. Then each relevance result with score at
  least \<open>0.7\<close> that overlaps no fused segment produced so far is emitted with score \<open>0.5\<close>,
  type speech and combined score \<open>0.8\<close> times its score. The whole output is sorted by
  combined score, descending.
\<close>

theorem C1_fuse_refines_spec:
  "combineAudioAndCaptionAnalysis audio relevance = fuse_spec audio relevance
   \<and> sorted_wrt (\<lambda>F G. combinedScore G \<le> combinedScore F)
        (combineAudioAndCaptionAnalysis audio relevance)"
proof
  show "combineAudioAndCaptionAnalysis audio relevance = fuse_spec audio relevance"
    by (simp only: combineAudioAndCaptionAnalysis_def fuse_spec_def js_sort_difference
          combine_unsorted)
  show "sorted_wrt (\<lambda>F G. combinedScore G \<le> combinedScore F)
          (combineAudioAndCaptionAnalysis audio relevance)"
    unfolding combineAudioAndCaptionAnalysis_def by (rule js_sort_descending)
qed

lemma caption_only_interval [simp]:
  "(Segment.start (caption_only R), end (caption_only R)) = interval R"
  by (simp add: caption_only_def interval_def)

lemma caption_loop_orphans:
  "\<exists>orphans. caption_loop es rs = es @ map caption_only orphans
      \<and> set orphans \<subseteq> set rs
      \<and> list_all (\<lambda>R. list_all (\<lambda>E. \<not> segmentsOverlap (Segment.start E, end E) (interval R)) es)
                  orphans
      \<and> sorted_wrt (\<lambda>R1 R2. \<not> segmentsOverlap (interval R1) (interval R2)) orphans"
proof (induction rs arbitrary: es)
  case Nil
  show ?case
    by (rule exI [of _ "[]"]) simp
next
  case (Cons R rs)
  let ?hasOverlap = "list_ex (\<lambda>segment. segmentsOverlap (Segment.start segment, end segment)
                        (fst (captionSegment R), fst (snd (captionSegment R)))) es"
  have iv: "(fst (captionSegment R), fst (snd (captionSegment R))) = interval R"
    by (simp add: captionSegment_def interval_def)
  show ?case
  proof (cases "AnalysisResult.score R < 0.7 \<or> ?hasOverlap")
    case True
    then have skip: "caption_loop es (R # rs) = caption_loop es rs"
      by (auto simp: Let_def)
    obtain orphans where "caption_loop es rs = es @ map caption_only orphans"
      "set orphans \<subseteq> set rs"
      "list_all (\<lambda>R. list_all (\<lambda>E. \<not> segmentsOverlap (Segment.start E, end E) (interval R)) es)
                orphans"
      "sorted_wrt (\<lambda>R1 R2. \<not> segmentsOverlap (interval R1) (interval R2)) orphans"
      using Cons.IH [of es] by blast
    then show ?thesis
      unfolding skip by (intro exI [of _ orphans]) auto
  next
    case False
    then have push: "caption_loop es (R # rs) = caption_loop (es @ [caption_only R]) rs"
      and free: "list_all (\<lambda>E. \<not> segmentsOverlap (Segment.start E, end E) (interval R)) es"
      by (auto simp: Let_def iv list_all_iff list_ex_iff)
    obtain orphans where o: "caption_loop (es @ [caption_only R]) rs
                              = (es @ [caption_only R]) @ map caption_only orphans"
      "set orphans \<subseteq> set rs"
      "list_all (\<lambda>R'. list_all (\<lambda>E. \<not> segmentsOverlap (Segment.start E, end E) (interval R'))
                             (es @ [caption_only R]))
                orphans"
      "sorted_wrt (\<lambda>R1 R2. \<not> segmentsOverlap (interval R1) (interval R2)) orphans"
      using Cons.IH [of "es @ [caption_only R]"] by blast
    have "caption_loop es (R # rs) = es @ map caption_only (R # orphans)"
      using push o(1) by simp
    moreover have "set (R # orphans) \<subseteq> set (R # rs)"
      using o(2) by auto
    moreover have "list_all (\<lambda>R'. list_all (\<lambda>E. \<not> segmentsOverlap (Segment.start E, end E) (interval R')) es)
                     (R # orphans)"
      using o(3) free by (simp add: list_all_iff)
    moreover have "sorted_wrt (\<lambda>R1 R2. \<not> segmentsOverlap (interval R1) (interval R2)) (R # orphans)"
      using o(3,4) by (simp add: list_all_iff)
    ultimately show ?thesis
      by blast
  qed
qed

lemma combine_parts:
  "\<exists>orphans. mset (combineAudioAndCaptionAnalysis audio rs)
                = mset (map (enhance rs) audio) + mset (map caption_only orphans)
      \<and> set orphans \<subseteq> set rs
      \<and> sorted_wrt (\<lambda>R1 R2. \<not> segmentsOverlap (interval R1) (interval R2)) orphans"
proof -
  obtain orphans where
    "caption_loop (audio_loop rs [] audio) rs = audio_loop rs [] audio @ map caption_only orphans"
    "set orphans \<subseteq> set rs"
    "sorted_wrt (\<lambda>R1 R2. \<not> segmentsOverlap (interval R1) (interval R2)) orphans"
    using caption_loop_orphans [of "audio_loop rs [] audio" rs] by blast
  then show ?thesis
    by (intro exI [of _ orphans])
       (simp add: combineAudioAndCaptionAnalysis_def mset_js_sort audio_loop_map)
qed

lemma truncate_enhance [simp]: "Segment.truncate (enhance rs A) = A"
  by (cases "findOverlappingCaptions A (map captionSegment rs)")
     (simp_all add: enhance_def Segment.truncate_def Let_def)

text \<open>
  Claim C10: for every input, the output of \<open>fuse\<close> consists of exactly one fused segment
  per input acoustic segment, whose \<open>start\<close>, \<open>end\<close>, \<open>score\<close> and \<open>type\<close> are those of
  that acoustic segment (cutting the added fields off gives the input list back, in
  order), and of segments made from relevance results alone; so no acoustic segment is
  dropped, merged or clipped, and the output is at least as long as the acoustic input.
\<close>

theorem C10_fuse_keeps_acoustic:
  "\<exists>fused orphans.
      mset (combineAudioAndCaptionAnalysis audio relevance)
        = mset fused + mset (map caption_only orphans)
      \<and> map Segment.truncate fused = audio
      \<and> set orphans \<subseteq> set relevance
      \<and> length audio \<le> length (combineAudioAndCaptionAnalysis audio relevance)"
proof -
  obtain orphans where o:
    "mset (combineAudioAndCaptionAnalysis audio relevance)
       = mset (map (enhance relevance) audio) + mset (map caption_only orphans)"
    "set orphans \<subseteq> set relevance"
    using combine_parts [of audio relevance] by blast
  have "size (mset (combineAudioAndCaptionAnalysis audio relevance))
        = size (mset (map (enhance relevance) audio) + mset (map caption_only orphans))"
    by (simp only: o(1))
  then have "length audio \<le> length (combineAudioAndCaptionAnalysis audio relevance)"
    by simp
  moreover have "map Segment.truncate (map (enhance relevance) audio) = audio"
    by (simp add: comp_def)
  ultimately show ?thesis
    using o by blast
qed

text \<open>
  Claim C2 (amended): for every input to \<open>fuse\<close>, the output consists of the segments
  made from the acoustic segments and of segments emitted by the orphan step for some of
  the relevance results, and the source intervals of the results so emitted do not
  overlap one another: two orphan results whose source intervals overlap each other are
  never both emitted.
\<close>

theorem C2_orphans_never_overlap:
  "\<exists>orphans.
      mset (combineAudioAndCaptionAnalysis audio relevance)
        = mset (map (enhance relevance) audio) + mset (map caption_only orphans)
      \<and> set orphans \<subseteq> set relevance
      \<and> (\<forall>i j. i < j \<and> j < length orphans \<longrightarrow>
             \<not> segmentsOverlap (interval (orphans ! i)) (interval (orphans ! j)))"
proof -
  obtain orphans where o:
    "mset (combineAudioAndCaptionAnalysis audio relevance)
       = mset (map (enhance relevance) audio) + mset (map caption_only orphans)"
    "set orphans \<subseteq> set relevance"
    "sorted_wrt (\<lambda>R1 R2. \<not> segmentsOverlap (interval R1) (interval R2)) orphans"
    using combine_parts [of audio relevance] by blast
  have "\<forall>i j. i < j \<and> j < length orphans \<longrightarrow>
             \<not> segmentsOverlap (interval (orphans ! i)) (interval (orphans ! j))"
    using o(3) by (simp add: sorted_wrt_iff_nth_less)
  then show ?thesis
    using o(1,2) by blast
qed

lemmas fuse_eval =
  combineAudioAndCaptionAnalysis_def enhance_def caption_only_def findOverlappingCaptions_def
  captionSegment_def segmentsOverlap_def js_sort_def sample_result_def interval_def Let_def

lemma fuse_sample:
  "combineAudioAndCaptionAnalysis
     [\<lparr>Segment.start = 100, end = 115, score = 0.75, type = speech\<rparr>,
      \<lparr>Segment.start = 200, end = 210, score = 0.6, type = music\<rparr>]
     [sample_result 0.9 105 5 ''wow'', sample_result 0.85 300 10 ''story'',
      sample_result 0.8 305 10 ''again'']
   = [\<lparr>Segment.start = 100, end = 115, score = 0.75, type = speech,
        captionText = Some ''wow'', aiAnalysis = Some (sample_result 0.9 105 5 ''wow''),
        combinedScore = 0.84\<rparr>,
      \<lparr>Segment.start = 300, end = 310, score = 0.5, type = speech,
        captionText = Some ''story'', aiAnalysis = Some (sample_result 0.85 300 10 ''story''),
        combinedScore = 0.68\<rparr>,
      \<lparr>Segment.start = 200, end = 210, score = 0.6, type = music,
        captionText = None, aiAnalysis = None,
        combinedScore = 0.42\<rparr>]"
  by (simp add: fuse_eval)

text \<open>
  Claim C2 (as stated: two orphan results with overlapping source intervals are both
  emitted). Two results with scores 0.85 and 0.8 on the overlapping intervals
  \<open>[300, 310)\<close> and \<open>[305, 315)\<close>, with no acoustic segment at all: only the first is
  emitted, since the second is tested against the segment just pushed for the first.
\<close>

theorem C2_second_orphan_dropped:
  "combineAudioAndCaptionAnalysis []
     [sample_result 0.85 300 10 ''story'', sample_result 0.8 305 10 ''again'']
   = [caption_only (sample_result 0.85 300 10 ''story'')]
   \<and> segmentsOverlap (interval (sample_result 0.85 300 10 ''story''))
                      (interval (sample_result 0.8 305 10 ''again''))
   \<and> 0.7 \<le> AnalysisResult.score (sample_result 0.85 300 10 ''story'')
   \<and> 0.7 \<le> AnalysisResult.score (sample_result 0.8 305 10 ''again'')"
  by (simp add: fuse_eval)

text \<open>
  A result that was skipped blocks nothing: with three results of score 0.9 on
  \<open>[0, 10)\<close>, \<open>[5, 15)\<close> and \<open>[12, 20)\<close>, the second is skipped against the first and
  the third is emitted, although it overlaps the second.
\<close>

lemma fuse_skipped_result_does_not_block:
  "combineAudioAndCaptionAnalysis []
     [sample_result 0.9 0 10 ''a'', sample_result 0.9 5 10 ''b'', sample_result 0.9 12 8 ''c'']
   = [caption_only (sample_result 0.9 0 10 ''a''), caption_only (sample_result 0.9 12 8 ''c'')]"
  by (simp add: fuse_eval)

theorem C2_orphans_never_overlap_witness:
  "\<exists>orphans. length orphans = 2
     \<and> mset (combineAudioAndCaptionAnalysis []
               [sample_result 0.85 300 10 ''story'', sample_result 0.75 400 10 ''end'',
                sample_result 0.8 305 10 ''again''])
       = mset (map caption_only orphans)
     \<and> \<not> segmentsOverlap (interval (orphans ! 0)) (interval (orphans ! 1))"
proof -
  let ?rs = "[sample_result 0.85 300 10 ''story'', sample_result 0.75 400 10 ''end'',
              sample_result 0.8 305 10 ''again'']"
  obtain orphans where o:
    "mset (combineAudioAndCaptionAnalysis [] ?rs)
       = mset (map (enhance ?rs) []) + mset (map caption_only orphans)"
    "\<forall>i j. i < j \<and> j < length orphans \<longrightarrow>
             \<not> segmentsOverlap (interval (orphans ! i)) (interval (orphans ! j))"
    using C2_orphans_never_overlap [of "[]" ?rs] by blast
  have "length (combineAudioAndCaptionAnalysis [] ?rs) = 2"
    by (simp add: fuse_eval)
  moreover have "size (mset (combineAudioAndCaptionAnalysis [] ?rs))
                 = size (mset (map (enhance ?rs) []) + mset (map caption_only orphans))"
    by (simp only: o(1))
  ultimately have len: "length orphans = 2"
    by simp
  then have "\<not> segmentsOverlap (interval (orphans ! 0)) (interval (orphans ! 1))"
    using o(2) by simp
  then show ?thesis
    using len o(1) by auto
qed

theorem C1_fuse_refines_spec_witness:
  "fuse_spec
     [\<lparr>Segment.start = 100, end = 115, score = 0.75, type = speech\<rparr>,
      \<lparr>Segment.start = 200, end = 210, score = 0.6, type = music\<rparr>]
     [sample_result 0.9 105 5 ''wow'', sample_result 0.85 300 10 ''story'',
      sample_result 0.8 305 10 ''again'']
   = [\<lparr>Segment.start = 100, end = 115, score = 0.75, type = speech,
        captionText = Some ''wow'', aiAnalysis = Some (sample_result 0.9 105 5 ''wow''),
        combinedScore = 0.84\<rparr>,
      \<lparr>Segment.start = 300, end = 310, score = 0.5, type = speech,
        captionText = Some ''story'', aiAnalysis = Some (sample_result 0.85 300 10 ''story''),
        combinedScore = 0.68\<rparr>,
      \<lparr>Segment.start = 200, end = 210, score = 0.6, type = music,
        captionText = None, aiAnalysis = None,
        combinedScore = 0.42\<rparr>]"
  using C1_fuse_refines_spec
    [of "[\<lparr>Segment.start = 100, end = 115, score = 0.75, type = speech\<rparr>,
          \<lparr>Segment.start = 200, end = 210, score = 0.6, type = music\<rparr>]"
        "[sample_result 0.9 105 5 ''wow'', sample_result 0.85 300 10 ''story'',
          sample_result 0.8 305 10 ''again'']"]
    fuse_sample
  by (simp only:)

end
